theory Spec2Isabelle
  imports Main "HOL-Library.AList" "HOL-Library.Finite_Map"
begin

section \<open>Website time tracker: session state machine, flush and status queries\<close>

text \<open>
  A shallow embedding of \<^verbatim>\<open>src/background/service-worker.js\<close> (the session state
  machine, the flush and the status query) and of the storage module
  (\<^verbatim>\<open>getDailyData\<close>, \<^verbatim>\<open>saveDailyData\<close>, \<^verbatim>\<open>getTimeRange\<close>, \<^verbatim>\<open>getLimits\<close>,
  \<^verbatim>\<open>setLimit\<close>, \<^verbatim>\<open>removeLimit\<close>, \<^verbatim>\<open>cleanupOldData\<close>, \<^verbatim>\<open>aggregateDomains\<close>).

  Conventions of the embedding.
  \<^item> Timestamps and durations are JavaScript numbers holding integers: \<open>int\<close>.
  \<^item> A nullable field is an \<open>option\<close>; \<open>None\<close> is \<^verbatim>\<open>null\<close> (or \<^verbatim>\<open>undefined\<close>).
  \<^item> JavaScript tests such as \<^verbatim>\<open>if (state.sessionStartTime)\<close> are truthiness tests:
    \<^verbatim>\<open>null\<close>, the number \<^verbatim>\<open>0\<close> and the empty string are all falsy. The model
    keeps that (\<open>truthyNum\<close>, \<open>truthyStr\<close>).
  \<^item> A JavaScript object used as a dictionary is a finite map \<open>(string, 'v) fmap\<close>; the
    browser's key-value store is an association list of its keys and values, with a
    counter of the write calls (\<^verbatim>\<open>set\<close>, \<^verbatim>\<open>remove\<close>) that succeeded.
  \<^item> What a handler reads from outside the program is a parameter: the record \<open>env\<close>
    holds the reading of \<^verbatim>\<open>Date.now()\<close>, the calendar (the storage key of the day
    \<open>n\<close> days before today, the instant \<open>n\<close> days before now, the parse of a date
    string), the host name a URL parses to, and whether the store's reads or writes are
    rejected. One handler activation sees one \<open>env\<close>: the clock and the fault mode do
    not change while it runs, and handlers do not interleave.
  \<^item> A promise that rejects is a result: \<open>None\<close> for a read, the outcome \<open>Rejected\<close>
    (with the state and the store as the exception leaves them) for a handler.
\<close>

subsection \<open>Constants (\<^verbatim>\<open>shared/constants.js\<close>)\<close>

definition INACTIVITY_TIMEOUT_MS :: int where
  "INACTIVITY_TIMEOUT_MS = 15000"

definition DATA_RETENTION_DAYS :: nat where
  "DATA_RETENTION_DAYS = 90"

definition STORAGE_KEYS_LIMITS :: string where
  "STORAGE_KEYS_LIMITS = ''limits''"

definition STORAGE_KEYS_DAILY_PREFIX :: string where
  "STORAGE_KEYS_DAILY_PREFIX = ''daily:''"

definition SKIP_PROTOCOLS :: "string list" where
  "SKIP_PROTOCOLS =
     [''chrome:'', ''chrome-extension:'', ''about:'', ''file:'', ''devtools:'', ''edge:'', ''brave:'']"

subsection \<open>JavaScript primitives\<close>

text \<open>\<^verbatim>\<open>x || 0\<close> on a number that may be missing, and the coercion of \<^verbatim>\<open>null\<close> to 0 in
  a subtraction.\<close>

definition orZero :: "int option \<Rightarrow> int" where
  "orZero v = (case v of None \<Rightarrow> 0 | Some n \<Rightarrow> n)"

definition truthyNum :: "int option \<Rightarrow> bool" where
  "truthyNum v = (case v of None \<Rightarrow> False | Some n \<Rightarrow> n \<noteq> 0)"

definition truthyStr :: "string option \<Rightarrow> bool" where
  "truthyStr v = (case v of None \<Rightarrow> False | Some d \<Rightarrow> d \<noteq> [])"

text \<open>\<^verbatim>\<open>s.startsWith(p)\<close>.\<close>

definition startsWith :: "string \<Rightarrow> string \<Rightarrow> bool" where
  "startsWith s p = (take (length p) s = p)"

text \<open>\<^verbatim>\<open>s.replace(pat, rep)\<close> with a string pattern: the first occurrence only.\<close>

fun replaceFirst :: "string \<Rightarrow> string \<Rightarrow> string \<Rightarrow> string" where
  "replaceFirst pat rep [] = (if pat = [] then rep else [])"
| "replaceFirst pat rep (c # cs) =
     (if startsWith (c # cs) pat then rep @ drop (length pat) (c # cs)
      else c # replaceFirst pat rep cs)"

subsection \<open>Data model\<close>

type_synonym daily_record = "(string, int) fmap"

record limit_config =
  limit :: int
  period :: string

text \<open>An entry of the stored limits table: a bare number (the legacy format) or an object.\<close>

datatype limit_value = Bare int | Structured limit_config

datatype stored = DailyRec daily_record | LimitsTab "(string, limit_value) fmap"

record local_storage =
  items :: "(string \<times> stored) list"
  writes :: nat

record env =
  now :: int
  dateKeyBack :: "nat \<Rightarrow> string"
  daysAgo :: "nat \<Rightarrow> int"
  parseDate :: "string \<Rightarrow> int option"
  urlHostname :: "string \<Rightarrow> string option"
  getFails :: bool
  setFails :: bool

text \<open>The in-memory \<^verbatim>\<open>state\<close> object of the service worker. \<open>lastPersistTime\<close> is the
  property the activity handler adds; \<open>None\<close> is \<^verbatim>\<open>undefined\<close>.\<close>

record session_state =
  activeTabId :: "int option"
  activeDomain :: "string option"
  sessionStartTime :: "int option"
  lastActivityTime :: "int option"
  isTracking :: bool
  pendingTime :: "(string, int) fmap"
  lastPersistTime :: "int option"

definition initial_state :: session_state where
  "initial_state =
     \<lparr>activeTabId = None, activeDomain = None, sessionStartTime = None,
      lastActivityTime = None, isTracking = False, pendingTime = fmempty,
      lastPersistTime = None\<rparr>"

definition empty_storage :: local_storage where
  "empty_storage = \<lparr>items = [], writes = 0\<rparr>"

datatype outcome = Resolved | Rejected

subsection \<open>The key-value store (\<^verbatim>\<open>chrome.storage.local\<close>)\<close>

definition storage_get :: "env \<Rightarrow> string \<Rightarrow> local_storage \<Rightarrow> stored option option" where
  "storage_get e key st = (if getFails e then None else Some (map_of (items st) key))"

definition storage_set :: "env \<Rightarrow> string \<Rightarrow> stored \<Rightarrow> local_storage \<Rightarrow> local_storage option" where
  "storage_set e key v st =
     (if setFails e then None
      else Some (st\<lparr>items := AList.update key v (items st), writes := Suc (writes st)\<rparr>))"

definition storage_remove :: "env \<Rightarrow> string list \<Rightarrow> local_storage \<Rightarrow> local_storage option" where
  "storage_remove e keys st =
     (if setFails e then None
      else Some (st\<lparr>items := filter (\<lambda>kv. fst kv \<notin> set keys) (items st),
                     writes := Suc (writes st)\<rparr>))"

subsection \<open>Storage module\<close>

text \<open>\<^verbatim>\<open>getTodayKey()\<close>: the key of the local calendar day of the clock reading.\<close>

definition getTodayKey :: "env \<Rightarrow> string" where
  "getTodayKey e = dateKeyBack e 0"

text \<open>\<^verbatim>\<open>getDailyData(date)\<close> with a date key string: \<^verbatim>\<open>result[key] || {}\<close>. A cell
  that holds a limits table is read as no record: daily keys carry the reserved prefix
  and the limits table has a key of its own.\<close>

definition recordOrEmpty :: "stored option \<Rightarrow> daily_record" where
  "recordOrEmpty v = (case v of Some (DailyRec m) \<Rightarrow> m | _ \<Rightarrow> fmempty)"

definition getDailyData :: "env \<Rightarrow> string \<Rightarrow> local_storage \<Rightarrow> daily_record option" where
  "getDailyData e date st =
     map_option recordOrEmpty (storage_get e (STORAGE_KEYS_DAILY_PREFIX @ date) st)"

definition saveDailyData :: "env \<Rightarrow> string \<Rightarrow> daily_record \<Rightarrow> local_storage \<Rightarrow> local_storage option" where
  "saveDailyData e date data st =
     storage_set e (STORAGE_KEYS_DAILY_PREFIX @ date) (DailyRec data) st"

text \<open>The loop body \<^verbatim>\<open>acc[domain] = (acc[domain] || 0) + time\<close> run over every entry
  of \<open>extra\<close>: each key of \<open>extra\<close> is visited once and gets its new value, the other
  keys of \<open>acc\<close> stay.\<close>

definition addTimes :: "daily_record \<Rightarrow> daily_record \<Rightarrow> daily_record" where
  "addTimes acc extra =
     fmadd acc (fmmap_keys (\<lambda>domain time. orZero (fmlookup acc domain) + time) extra)"

definition aggregateDomains :: "daily_record list \<Rightarrow> daily_record" where
  "aggregateDomains dataArray = fold (\<lambda>dayData acc. addTimes acc dayData) dataArray fmempty"

text \<open>\<^verbatim>\<open>getTimeRange(startDate, endDate)\<close>. The service worker always passes the
  current instant as the end; the start is the local midnight \<open>startBack\<close> days before
  today, so the loop visits the days \<open>startBack, \<dots>, 1, 0\<close> days back, oldest first.
  The result object is built key by key (\<^verbatim>\<open>acc[dateKey] = result[key] || {}\<close>).\<close>

definition rangeKeys :: "env \<Rightarrow> nat \<Rightarrow> string list" where
  "rangeKeys e startBack =
     map (\<lambda>i. STORAGE_KEYS_DAILY_PREFIX @ dateKeyBack e i) (rev [0..<Suc startBack])"

definition getTimeRange :: "env \<Rightarrow> nat \<Rightarrow> local_storage \<Rightarrow> (string \<times> daily_record) list option" where
  "getTimeRange e startBack st =
     (if getFails e then None
      else Some (fold (\<lambda>key acc.
                   AList.update (replaceFirst STORAGE_KEYS_DAILY_PREFIX [] key)
                     (recordOrEmpty (map_of (items st) key)) acc)
                 (rangeKeys e startBack) []))"

text \<open>\<^verbatim>\<open>getLimits()\<close>: the stored table (\<^verbatim>\<open>result[LIMITS] || {}\<close>), each bare number
  upgraded to a daily limit. It returns the store as it found it.\<close>

definition limitsOrEmpty :: "stored option \<Rightarrow> (string, limit_value) fmap" where
  "limitsOrEmpty v = (case v of Some (LimitsTab t) \<Rightarrow> t | _ \<Rightarrow> fmempty)"

fun migrate :: "limit_value \<Rightarrow> limit_config" where
  "migrate (Bare n) = \<lparr>limit = n, period = ''day''\<rparr>"
| "migrate (Structured c) = c"

definition getLimits :: "env \<Rightarrow> local_storage \<Rightarrow> (string, limit_config) fmap option \<times> local_storage" where
  "getLimits e st =
     (case storage_get e STORAGE_KEYS_LIMITS st of
        None \<Rightarrow> (None, st)
      | Some v \<Rightarrow> (Some (fmmap migrate (limitsOrEmpty v)), st))"

text \<open>\<^verbatim>\<open>setLimit\<close> and \<^verbatim>\<open>removeLimit\<close> read the migrated table, change one entry and
  write the whole table back.\<close>

definition setLimit :: "env \<Rightarrow> string \<Rightarrow> int \<Rightarrow> string \<Rightarrow> local_storage \<Rightarrow> outcome \<times> local_storage" where
  "setLimit e domain milliseconds per st =
     (case getLimits e st of
        (None, st1) \<Rightarrow> (Rejected, st1)
      | (Some limits, st1) \<Rightarrow>
          (case storage_set e STORAGE_KEYS_LIMITS
                  (LimitsTab (fmmap Structured
                     (fmupd domain \<lparr>limit = milliseconds, period = per\<rparr> limits))) st1 of
             None \<Rightarrow> (Rejected, st1)
           | Some st2 \<Rightarrow> (Resolved, st2)))"

definition removeLimit :: "env \<Rightarrow> string \<Rightarrow> local_storage \<Rightarrow> outcome \<times> local_storage" where
  "removeLimit e domain st =
     (case getLimits e st of
        (None, st1) \<Rightarrow> (Rejected, st1)
      | (Some limits, st1) \<Rightarrow>
          (case storage_set e STORAGE_KEYS_LIMITS
                  (LimitsTab (fmmap Structured (fmdrop domain limits))) st1 of
             None \<Rightarrow> (Rejected, st1)
           | Some st2 \<Rightarrow> (Resolved, st2)))"

text \<open>\<^verbatim>\<open>cleanupOldData()\<close>. \<open>daysAgo e n\<close> is the instant \<^verbatim>\<open>setDate(getDate() - n)\<close>
  moves the current date to; \<open>parseDate e str\<close> is the time value of
  \<^verbatim>\<open>new Date(str)\<close>, \<open>None\<close> for an invalid date (whose comparison is false).\<close>

definition isOldDailyKey :: "env \<Rightarrow> int \<Rightarrow> string \<Rightarrow> bool" where
  "isOldDailyKey e cutoffDate key =
     (if \<not> startsWith key STORAGE_KEYS_DAILY_PREFIX then False
      else (case parseDate e (replaceFirst STORAGE_KEYS_DAILY_PREFIX [] key) of
              None \<Rightarrow> False
            | Some t \<Rightarrow> t < cutoffDate))"

definition cleanupOldData :: "env \<Rightarrow> local_storage \<Rightarrow> outcome \<times> local_storage" where
  "cleanupOldData e st =
     (let cutoffDate = daysAgo e DATA_RETENTION_DAYS in
      if getFails e then (Rejected, st)
      else
        (let keysToRemove = filter (isOldDailyKey e cutoffDate) (map fst (items st)) in
         if length keysToRemove > 0 then
           (case storage_remove e keysToRemove st of
              None \<Rightarrow> (Rejected, st)
            | Some st1 \<Rightarrow> (Resolved, st1))
         else (Resolved, st)))"

subsection \<open>Session state machine (\<^verbatim>\<open>background/service-worker.js\<close>)\<close>

text \<open>\<^verbatim>\<open>addPendingTime(domain, milliseconds)\<close>. The source reads
  \<^verbatim>\<open>state.pendingTime[domain]\<close> on a plain object, and that read also finds what every
  object inherits from \<^verbatim>\<open>Object.prototype\<close>: for the domain \<open>constructor\<close> it yields
  a function, which is truthy, and the sum with the milliseconds is then a string. The
  embedding keeps the object's own properties only and its amounts are numbers: it is the
  code for every domain that is not one of \<open>inheritedNames\<close>, and says nothing about
  what the code stores under those names. The same holds for the other reads of this
  shape (\<open>addTimes\<close>, the status query).\<close>

definition inheritedNames :: "string list" where
  "inheritedNames =
     [''constructor'', ''__proto__'', ''hasOwnProperty'', ''isPrototypeOf'',
      ''propertyIsEnumerable'', ''toLocaleString'', ''toString'', ''valueOf'',
      ''__defineGetter__'', ''__defineSetter__'', ''__lookupGetter__'', ''__lookupSetter__'']"


definition addPendingTime :: "string option \<Rightarrow> int \<Rightarrow> session_state \<Rightarrow> session_state" where
  "addPendingTime domain milliseconds s =
     (case domain of
        None \<Rightarrow> s
      | Some d \<Rightarrow>
          if d = [] \<or> milliseconds \<le> 0 then s
          else s\<lparr>pendingTime :=
                   fmupd d (orZero (fmlookup (pendingTime s) d) + milliseconds) (pendingTime s)\<rparr>)"

text \<open>\<^verbatim>\<open>persistPendingTime()\<close>, first part (lines 338 to 349): a session in progress is
  rolled forward.\<close>

definition rollForward :: "env \<Rightarrow> session_state \<Rightarrow> session_state" where
  "rollForward e s =
     (if isTracking s \<and> truthyNum (sessionStartTime s) \<and> truthyStr (activeDomain s) then
        (let elapsed = now e - orZero (sessionStartTime s) in
         (if elapsed > 0 then addPendingTime (activeDomain s) elapsed s else s)
           \<lparr>sessionStartTime := Some (now e)\<rparr>)
      else s)"

text \<open>Second part (lines 351 to 366): nothing to do for an empty buffer; otherwise read
  today's record, add every pending amount, write the record back, and only then clear the
  buffer. A rejected read or write leaves the function by its exception.\<close>

definition flushPending :: "env \<Rightarrow> session_state \<Rightarrow> local_storage \<Rightarrow> outcome \<times> session_state \<times> local_storage" where
  "flushPending e s st =
     (if pendingTime s = fmempty then (Resolved, s, st)
      else
        (case getDailyData e (getTodayKey e) st of
           None \<Rightarrow> (Rejected, s, st)
         | Some todayData \<Rightarrow>
             (case saveDailyData e (getTodayKey e) (addTimes todayData (pendingTime s)) st of
                None \<Rightarrow> (Rejected, s, st)
              | Some st1 \<Rightarrow> (Resolved, s\<lparr>pendingTime := fmempty\<rparr>, st1))))"

definition persistPendingTime :: "env \<Rightarrow> session_state \<Rightarrow> local_storage \<Rightarrow> outcome \<times> session_state \<times> local_storage" where
  "persistPendingTime e s st = flushPending e (rollForward e s) st"

text \<open>\<^verbatim>\<open>checkInactivityTimeout()\<close>.\<close>

definition checkInactivityTimeout :: "env \<Rightarrow> session_state \<Rightarrow> session_state" where
  "checkInactivityTimeout e s =
     (if \<not> isTracking s \<or> \<not> truthyNum (lastActivityTime s) then s
      else
        (let timeSinceActivity = now e - orZero (lastActivityTime s) in
         if timeSinceActivity \<ge> INACTIVITY_TIMEOUT_MS then
           (let activeTime = orZero (lastActivityTime s) - orZero (sessionStartTime s) in
            (if activeTime > 0 \<and> truthyStr (activeDomain s)
             then addPendingTime (activeDomain s) activeTime s else s)
              \<lparr>sessionStartTime := None, lastActivityTime := None, isTracking := False\<rparr>)
         else s))"

text \<open>\<^verbatim>\<open>finalizeCurrentSession()\<close>. The flush runs before the session is marked idle.\<close>

definition sessionElapsed :: "env \<Rightarrow> session_state \<Rightarrow> int" where
  "sessionElapsed e s =
     (if truthyNum (lastActivityTime s) then
        (let timeSinceActivity = now e - orZero (lastActivityTime s) in
         if timeSinceActivity \<ge> INACTIVITY_TIMEOUT_MS
         then orZero (lastActivityTime s) - orZero (sessionStartTime s)
         else now e - orZero (sessionStartTime s))
      else now e - orZero (sessionStartTime s))"

definition toIdle :: "session_state \<Rightarrow> session_state" where
  "toIdle s = s\<lparr>sessionStartTime := None, lastActivityTime := None, isTracking := False\<rparr>"

definition finalizeCurrentSession :: "env \<Rightarrow> session_state \<Rightarrow> local_storage \<Rightarrow> outcome \<times> session_state \<times> local_storage" where
  "finalizeCurrentSession e s st =
     (if \<not> isTracking s \<or> \<not> truthyNum (sessionStartTime s) \<or> \<not> truthyStr (activeDomain s)
      then (Resolved, s, st)
      else
        (let elapsed = sessionElapsed e s in
         if elapsed > 0 then
           (case persistPendingTime e (addPendingTime (activeDomain s) elapsed s) st of
              (Rejected, s1, st1) \<Rightarrow> (Rejected, s1, st1)
            | (Resolved, s1, st1) \<Rightarrow> (Resolved, toIdle s1, st1))
         else (Resolved, toIdle s, st)))"

text \<open>\<^verbatim>\<open>shouldTrackUrl(url)\<close> and \<^verbatim>\<open>extractDomain(url)\<close> (\<^verbatim>\<open>shared/utils.js\<close>); a
  missing or empty URL is falsy, and \<open>urlHostname e url\<close> is \<open>None\<close> where
  \<^verbatim>\<open>new URL(url)\<close> throws.\<close>

definition shouldTrackUrl :: "string option \<Rightarrow> bool" where
  "shouldTrackUrl url =
     (case url of
        None \<Rightarrow> False
      | Some u \<Rightarrow> if u = [] then False else \<not> list_ex (\<lambda>protocol. startsWith u protocol) SKIP_PROTOCOLS)"

definition extractDomain :: "env \<Rightarrow> string option \<Rightarrow> string option" where
  "extractDomain e url =
     (case url of None \<Rightarrow> None | Some u \<Rightarrow> if u = [] then None else urlHostname e u)"

text \<open>\<^verbatim>\<open>handleTabChange(tabId)\<close>. What \<^verbatim>\<open>chrome.tabs.get(tabId)\<close> answers is the
  parameter \<open>looked\<close>: it throws, or it gives a tab with its URL (which may be missing).
  The call of \<^verbatim>\<open>finalizeCurrentSession\<close> stands before the \<^verbatim>\<open>try\<close>, so its rejection
  leaves the handler.\<close>

datatype tab_lookup = TabError | Tab "string option"

definition handleTabChange :: "env \<Rightarrow> int \<Rightarrow> tab_lookup \<Rightarrow> session_state \<Rightarrow> local_storage \<Rightarrow> outcome \<times> session_state \<times> local_storage" where
  "handleTabChange e tabId looked s st =
     (case finalizeCurrentSession e s st of
        (Rejected, s1, st1) \<Rightarrow> (Rejected, s1, st1)
      | (Resolved, s1, st1) \<Rightarrow>
          (case looked of
             TabError \<Rightarrow> (Resolved, s1, st1)
           | Tab url \<Rightarrow>
               if \<not> shouldTrackUrl url
               then (Resolved, s1\<lparr>activeTabId := Some tabId, activeDomain := None\<rparr>, st1)
               else (Resolved,
                     s1\<lparr>activeTabId := Some tabId, activeDomain := extractDomain e url,
                        sessionStartTime := None, lastActivityTime := None,
                        isTracking := False\<rparr>, st1)))"

text \<open>\<^verbatim>\<open>handleActivityDetected(tabId, domain)\<close>, in the order of the source. The answer of
  \<^verbatim>\<open>chrome.tabs.query({active, currentWindow})\<close> is the parameter \<open>queried\<close>. The
  sender is a content script: its tab id is a number and its domain a string (the content
  script sends none when its host name is empty, but the handler takes any). The
  handler's reply is \<^verbatim>\<open>getDomainStatus(domain)\<close>, modelled on its own below; here the
  handler is its effect on the state and the store.

  Lines 228 to 255: the inline inactivity check, the start of a session, the new
  \<open>lastActivityTime\<close>.\<close>

datatype tab_query = QueryError | NoActiveTab | ActiveTab int

definition trackActivity :: "env \<Rightarrow> session_state \<Rightarrow> local_storage \<Rightarrow> outcome \<times> session_state \<times> local_storage" where
  "trackActivity e s st =
     (let afterGap =
        (if isTracking s \<and> truthyNum (lastActivityTime s) then
           (let timeSinceLastActivity = now e - orZero (lastActivityTime s) in
            if timeSinceLastActivity \<ge> INACTIVITY_TIMEOUT_MS then
              (let activeTime = orZero (lastActivityTime s) - orZero (sessionStartTime s) in
               if activeTime > 0 \<and> truthyStr (activeDomain s) then
                 (case persistPendingTime e (addPendingTime (activeDomain s) activeTime s) st of
                    (Rejected, s1, st1) \<Rightarrow> (Rejected, s1, st1)
                  | (Resolved, s1, st1) \<Rightarrow> (Resolved, s1\<lparr>sessionStartTime := Some (now e)\<rparr>, st1))
               else (Resolved, s\<lparr>sessionStartTime := Some (now e)\<rparr>, st))
            else (Resolved, s, st))
         else (Resolved, s, st))
      in case afterGap of
           (Rejected, s1, st1) \<Rightarrow> (Rejected, s1, st1)
         | (Resolved, s1, st1) \<Rightarrow>
             (let s2 = (if \<not> isTracking s1
                        then s1\<lparr>isTracking := True, sessionStartTime := Some (now e)\<rparr>
                        else s1)
              in (Resolved, s2\<lparr>lastActivityTime := Some (now e)\<rparr>, st1)))"

text \<open>Lines 257 to 262: the flush in the background, at most every 30 seconds. Its
  rejection is caught and logged.\<close>

definition backgroundPersist :: "env \<Rightarrow> session_state \<Rightarrow> local_storage \<Rightarrow> session_state \<times> local_storage" where
  "backgroundPersist e s st =
     (if lastPersistTime s = None \<or> now e - orZero (lastPersistTime s) > 30000 then
        (case persistPendingTime e (s\<lparr>lastPersistTime := Some (now e)\<rparr>) st of
           (out, s1, st1) \<Rightarrow> (s1, st1))
      else (s, st))"

definition handleActivityDetected :: "env \<Rightarrow> int \<Rightarrow> string \<Rightarrow> tab_query \<Rightarrow> session_state \<Rightarrow> local_storage \<Rightarrow> outcome \<times> session_state \<times> local_storage" where
  "handleActivityDetected e tabId domain queried s st =
     (let checked =
        (if activeTabId s = None \<or> activeTabId s \<noteq> Some tabId then
           (case queried of
              ActiveTab i \<Rightarrow>
                if i = tabId
                then Some (s\<lparr>activeTabId := Some tabId, activeDomain := Some domain\<rparr>)
                else None
            | _ \<Rightarrow> None)
         else Some s)
      in case checked of
           None \<Rightarrow> (Resolved, s, st)
         | Some s1 \<Rightarrow>
             (let switched =
                (if Some domain \<noteq> activeDomain s1 then
                   (case finalizeCurrentSession e s1 st of
                      (Rejected, s2, st2) \<Rightarrow> (Rejected, s2, st2)
                    | (Resolved, s2, st2) \<Rightarrow>
                        (Resolved, s2\<lparr>activeDomain := Some domain, isTracking := False\<rparr>, st2))
                 else (Resolved, s1, st))
              in case switched of
                   (Rejected, s2, st2) \<Rightarrow> (Rejected, s2, st2)
                 | (Resolved, s2, st2) \<Rightarrow>
                     (case trackActivity e s2 st2 of
                        (Rejected, s3, st3) \<Rightarrow> (Rejected, s3, st3)
                      | (Resolved, s3, st3) \<Rightarrow>
                          (case backgroundPersist e s3 st3 of
                             (s4, st4) \<Rightarrow> (Resolved, s4, st4)))))"

subsection \<open>Status query\<close>

text \<open>\<^verbatim>\<open>getTimeForPeriod(domain, period)\<close>: the window starts today for a day (and for
  an unknown period), 6 days back for a week, 29 days back for a month.\<close>

definition periodStartBack :: "string \<Rightarrow> nat" where
  "periodStartBack per =
     (if per = ''day'' then 0 else if per = ''week'' then 6 else if per = ''month'' then 29 else 0)"

definition liveSessionTime :: "env \<Rightarrow> string \<Rightarrow> session_state \<Rightarrow> int" where
  "liveSessionTime e domain s =
     (if isTracking s \<and> activeDomain s = Some domain \<and> truthyNum (sessionStartTime s)
      then now e - orZero (sessionStartTime s) else 0)"

definition getTimeForPeriod :: "env \<Rightarrow> string \<Rightarrow> string \<Rightarrow> session_state \<Rightarrow> local_storage \<Rightarrow> int option" where
  "getTimeForPeriod e domain per s st =
     (case getTimeRange e (periodStartBack per) st of
        None \<Rightarrow> None
      | Some rangeData \<Rightarrow>
          (let aggregated = aggregateDomains (map snd rangeData) in
           Some (orZero (fmlookup aggregated domain) + orZero (fmlookup (pendingTime s) domain)
                 + liveSessionTime e domain s)))"

text \<open>\<^verbatim>\<open>getDomainStatus(domain)\<close> and the three shapes of its answer.\<close>

record limited_status =
  stLimit :: int
  stPeriod :: string
  totalTime :: int
  periodTime :: int
  limitExceeded :: bool
  exceededBy :: int
  remainingTime :: int
  stDomain :: string

datatype domain_status =
    NoDomain
  | NoLimit int string
  | Limited limited_status

definition hasLimit :: "domain_status \<Rightarrow> bool" where
  "hasLimit r = (case r of Limited x \<Rightarrow> True | _ \<Rightarrow> False)"

definition getDomainStatus :: "env \<Rightarrow> string \<Rightarrow> session_state \<Rightarrow> local_storage \<Rightarrow> domain_status option" where
  "getDomainStatus e domain s st =
     (if domain = [] then Some NoDomain
      else
        (case getLimits e st of
           (None, st1) \<Rightarrow> None
         | (Some limits, st1) \<Rightarrow>
             (case getDailyData e (getTodayKey e) st1 of
                None \<Rightarrow> None
              | Some todayData \<Rightarrow>
                  (let todayTime = orZero (fmlookup todayData domain)
                                   + orZero (fmlookup (pendingTime s) domain)
                                   + liveSessionTime e domain s in
                   case fmlookup limits domain of
                     None \<Rightarrow> Some (NoLimit todayTime domain)
                   | Some limitConfig \<Rightarrow>
                       (case getTimeForPeriod e domain (period limitConfig) s st1 of
                          None \<Rightarrow> None
                        | Some pt \<Rightarrow>
                            (let exceeded = (pt > limit limitConfig) in
                             Some (Limited
                               \<lparr>stLimit = limit limitConfig, stPeriod = period limitConfig,
                                totalTime = todayTime, periodTime = pt,
                                limitExceeded = exceeded,
                                exceededBy = (if exceeded then pt - limit limitConfig else 0),
                                remainingTime = max 0 (limit limitConfig - pt),
                                stDomain = domain\<rparr>)))))))"

subsection \<open>Notions used in the statements\<close>

text \<open>Today's durable record, the time credited to a domain so far (durable today plus
  pending), and a store and clock without faults.\<close>

definition todayRecord :: "env \<Rightarrow> local_storage \<Rightarrow> daily_record" where
  "todayRecord e st =
     recordOrEmpty (map_of (items st) (STORAGE_KEYS_DAILY_PREFIX @ getTodayKey e))"

definition credited :: "env \<Rightarrow> session_state \<Rightarrow> local_storage \<Rightarrow> string \<Rightarrow> int" where
  "credited e s st domain = orZero (fmlookup (todayRecord e st) domain) + orZero (fmlookup (pendingTime s) domain)"

definition storageOk :: "env \<Rightarrow> bool" where
  "storageOk e = (\<not> getFails e \<and> \<not> setFails e)"

text \<open>The environment of the worked scenarios: the clock reads \<open>t\<close>, today is
  2024-06-30, the store answers every call.\<close>

definition scenarioDays :: "string list" where
  "scenarioDays =
     [''2024-06-30'', ''2024-06-29'', ''2024-06-28'', ''2024-06-27'', ''2024-06-26'',
      ''2024-06-25'', ''2024-06-24'', ''2024-06-23'', ''2024-06-22'', ''2024-06-21'',
      ''2024-06-20'', ''2024-06-19'', ''2024-06-18'', ''2024-06-17'', ''2024-06-16'',
      ''2024-06-15'', ''2024-06-14'', ''2024-06-13'', ''2024-06-12'', ''2024-06-11'',
      ''2024-06-10'', ''2024-06-09'', ''2024-06-08'', ''2024-06-07'', ''2024-06-06'',
      ''2024-06-05'', ''2024-06-04'', ''2024-06-03'', ''2024-06-02'', ''2024-06-01'']"

definition scenarioParse :: "string \<Rightarrow> int option" where
  "scenarioParse str =
     (if str = ''2024-01-01'' then Some 1704067200000
      else if str = ''2024-06-29'' then Some 1719619200000
      else if str = ''2024-06-30'' then Some 1719705600000
      else None)"

definition scenarioHost :: "string \<Rightarrow> string option" where
  "scenarioHost url = (if url = ''https://a.com/'' then Some ''a.com'' else None)"

definition scenarioEnv :: "int \<Rightarrow> env" where
  "scenarioEnv t =
     \<lparr>now = t,
      dateKeyBack = (\<lambda>n. if n < length scenarioDays then scenarioDays ! n else ''2024-05-31''),
      daysAgo = (\<lambda>n. t - int n * 86400000),
      parseDate = scenarioParse,
      urlHostname = scenarioHost,
      getFails = False, setFails = False\<rparr>"

text \<open>A session on \<open>a.com\<close> in tab 1 that started at \<open>t0\<close> and saw its last activity
  at \<open>t1\<close>, with nothing pending.\<close>

definition trackingState :: "int \<Rightarrow> int \<Rightarrow> session_state" where
  "trackingState t0 t1 =
     \<lparr>activeTabId = Some 1, activeDomain = Some ''a.com'', sessionStartTime = Some t0,
      lastActivityTime = Some t1, isTracking = True, pendingTime = fmempty,
      lastPersistTime = Some t0\<rparr>"

text \<open>Stores of the scenarios: a legacy limits table; a structured limit of one minute a
  day with \<open>used\<close> milliseconds recorded today; a store with an old and a recent day.\<close>

definition legacyStore :: local_storage where
  "legacyStore =
     \<lparr>items = [(''limits'', LimitsTab (fmupd ''a.com'' (Bare 600000) fmempty))], writes = 0\<rparr>"

definition limitedStore :: "int \<Rightarrow> local_storage" where
  "limitedStore used =
     \<lparr>items = [(''limits'', LimitsTab (fmupd ''a.com''
                   (Structured \<lparr>limit = 60000, period = ''day''\<rparr>) fmempty)),
               (''daily:2024-06-30'', DailyRec (fmupd ''a.com'' used fmempty))],
      writes = 0\<rparr>"

definition agedStore :: local_storage where
  "agedStore =
     \<lparr>items = [(''limits'', LimitsTab fmempty),
               (''daily:2024-01-01'', DailyRec (fmupd ''a.com'' 5000 fmempty)),
               (''daily:2024-06-29'', DailyRec (fmupd ''a.com'' 7000 fmempty)),
               (''daily:notes'', DailyRec fmempty)],
      writes = 0\<rparr>"




subsection \<open>Reachable states\<close>

text \<open>The states the handlers can produce from the initial state: tab changes, activity
  signals, inactivity sweeps, finalisations and flushes, in any order, each in an
  environment that satisfies \<open>okEnv\<close> and, for an activity signal, with a domain that
  satisfies \<open>okDomain\<close>. Between handlers the store may change in any way (limits are
  edited, old days are pruned).\<close>

inductive reachableWith :: "(env \<Rightarrow> bool) \<Rightarrow> (string \<Rightarrow> bool) \<Rightarrow> session_state \<Rightarrow> local_storage \<Rightarrow> bool"
  for okEnv :: "env \<Rightarrow> bool" and okDomain :: "string \<Rightarrow> bool" where
  atStart: "reachableWith okEnv okDomain initial_state st"
| storeChanged: "reachableWith okEnv okDomain s st \<Longrightarrow> reachableWith okEnv okDomain s st'"
| tabChange:
    "reachableWith okEnv okDomain s st \<Longrightarrow> okEnv e \<Longrightarrow>
     handleTabChange e tabId looked s st = (out, s', st') \<Longrightarrow>
     reachableWith okEnv okDomain s' st'"
| activity:
    "reachableWith okEnv okDomain s st \<Longrightarrow> okEnv e \<Longrightarrow> okDomain domain \<Longrightarrow>
     handleActivityDetected e tabId domain queried s st = (out, s', st') \<Longrightarrow>
     reachableWith okEnv okDomain s' st'"
| sweep:
    "reachableWith okEnv okDomain s st \<Longrightarrow> okEnv e \<Longrightarrow>
     reachableWith okEnv okDomain (checkInactivityTimeout e s) st"
| finalize:
    "reachableWith okEnv okDomain s st \<Longrightarrow> okEnv e \<Longrightarrow>
     finalizeCurrentSession e s st = (out, s', st') \<Longrightarrow>
     reachableWith okEnv okDomain s' st'"
| flush:
    "reachableWith okEnv okDomain s st \<Longrightarrow> okEnv e \<Longrightarrow>
     persistPendingTime e s st = (out, s', st') \<Longrightarrow>
     reachableWith okEnv okDomain s' st'"

text \<open>Real inputs: the clock reads a positive time, and an activity signal carries a host
  name, which the content script sends only when it is not empty, other than the names
  every object inherits.\<close>

definition realClock :: "env \<Rightarrow> bool" where
  "realClock e = (0 < now e)"

definition sentDomain :: "string \<Rightarrow> bool" where
  "sentDomain d = (d \<noteq> [] \<and> d \<notin> set inheritedNames)"

text \<open>The invariants: a tracking session has a start time and a domain that pass the
  handlers' truthiness guards, and every pending amount is positive.\<close>

definition trackingSet :: "session_state \<Rightarrow> bool" where
  "trackingSet s =
     (isTracking s \<longrightarrow> truthyNum (sessionStartTime s) \<and> truthyStr (activeDomain s))"

definition pendingPositive :: "session_state \<Rightarrow> bool" where
  "pendingPositive s = fmpred (\<lambda>domain v. 0 < v) (pendingTime s)"

section \<open>Properties\<close>

subsection \<open>Basic facts about the model\<close>

lemma scenarioEnv_simps:
  "now (scenarioEnv t) = t" "getFails (scenarioEnv t) = False" "setFails (scenarioEnv t) = False"
  "getTodayKey (scenarioEnv t) = ''2024-06-30''" "dateKeyBack (scenarioEnv t) 0 = ''2024-06-30''"
  "parseDate (scenarioEnv t) = scenarioParse" "daysAgo (scenarioEnv t) n = t - int n * 86400000"
  "storageOk (scenarioEnv t)"
  by (simp_all add: scenarioEnv_def getTodayKey_def scenarioDays_def storageOk_def)

lemma orZero_simps: "orZero None = 0" "orZero (Some n) = n"
  by (simp_all add: orZero_def)

lemma truthy_simps:
  "truthyNum None = False" "truthyNum (Some n) = (n \<noteq> 0)"
  "truthyStr None = False" "truthyStr (Some d) = (d \<noteq> [])"
  by (simp_all add: truthyNum_def truthyStr_def)

lemma map_of_filter_fst:
  "map_of (filter (\<lambda>kv. P (fst kv)) xs) k = (if P k then map_of xs k else None)"
  by (induction xs) auto

lemma replaceFirst_prefix:
  "startsWith s pat \<Longrightarrow> replaceFirst pat [] s = drop (length pat) s"
  by (cases s) (auto simp: startsWith_def)

lemma replaceFirst_append: "replaceFirst pat [] (pat @ k) = k"
  using replaceFirst_prefix [of "pat @ k" pat] by (simp add: startsWith_def)

lemma isOldDailyKey_iff:
  "isOldDailyKey e c key \<longleftrightarrow>
     startsWith key ''daily:'' \<and> (\<exists>t. parseDate e (drop 6 key) = Some t \<and> t < c)"
proof -
  have "replaceFirst ''daily:'' [] key = drop 6 key" if "startsWith key ''daily:''"
    using replaceFirst_prefix [OF that] by (simp add: eval_nat_numeral)
  then show ?thesis
    by (auto simp: isOldDailyKey_def STORAGE_KEYS_DAILY_PREFIX_def split: option.splits)
qed

lemma limits_key_not_daily: "\<not> startsWith ''limits'' ''daily:''"
  by (simp add: startsWith_def)

lemma addTimes_lookup:
  "fmlookup (addTimes acc extra) d =
     (case fmlookup extra d of
        None \<Rightarrow> fmlookup acc d
      | Some t \<Rightarrow> Some (orZero (fmlookup acc d) + t))"
  by (auto simp: addTimes_def fmlookup_dom_iff split: option.splits)

lemma addTimes_orZero:
  "orZero (fmlookup (addTimes acc extra) d) = orZero (fmlookup acc d) + orZero (fmlookup extra d)"
  by (simp add: addTimes_lookup orZero_def split: option.splits)

lemma getDailyData_ok:
  "\<not> getFails e \<Longrightarrow>
   getDailyData e k st = Some (recordOrEmpty (map_of (items st) (STORAGE_KEYS_DAILY_PREFIX @ k)))"
  by (simp add: getDailyData_def storage_get_def)

lemma getDailyData_today: "\<not> getFails e \<Longrightarrow> getDailyData e (getTodayKey e) st = Some (todayRecord e st)"
  by (simp add: getDailyData_ok todayRecord_def)

lemma getLimits_ok:
  "\<not> getFails e \<Longrightarrow>
   getLimits e st = (Some (fmmap migrate (limitsOrEmpty (map_of (items st) STORAGE_KEYS_LIMITS))), st)"
  by (simp add: getLimits_def storage_get_def)

lemma getTimeRange_day:
  "\<not> getFails e \<Longrightarrow> getTimeRange e 0 st = Some [(getTodayKey e, todayRecord e st)]"
  by (simp add: getTimeRange_def rangeKeys_def todayRecord_def getTodayKey_def
      replaceFirst_append)

lemma aggregateDomains_single: "fmlookup (aggregateDomains [m]) d = fmlookup m d"
  by (simp add: aggregateDomains_def addTimes_lookup orZero_def split: option.splits)

lemma getTimeForPeriod_day:
  "\<not> getFails e \<Longrightarrow>
   getTimeForPeriod e domain ''day'' s st =
     Some (orZero (fmlookup (todayRecord e st) domain) + orZero (fmlookup (pendingTime s) domain)
           + liveSessionTime e domain s)"
  by (simp add: getTimeForPeriod_def periodStartBack_def getTimeRange_day aggregateDomains_single)

subsection \<open>Limits are migrated on read\<close>

text \<open>
  Claim C8. For every stored limits table, \<open>getLimits\<close> answers a table in which each bare
  number \<open>n\<close> has become \<open>{limit: n, period: "day"}\<close>, each structured entry is as it
  was stored and no domain is added; the store it hands back is the store it was given,
  write counter included, so nothing was written. A store rejecting the read is the only
  hypothesis.
\<close>

theorem getLimits_migrates_without_write:
  assumes "\<not> getFails e"
    and "map_of (items st) STORAGE_KEYS_LIMITS = Some (LimitsTab tbl)"
  shows "\<exists>limits. getLimits e st = (Some limits, st)
           \<and> (\<forall>domain n. fmlookup tbl domain = Some (Bare n)
                  \<longrightarrow> fmlookup limits domain = Some \<lparr>limit = n, period = ''day''\<rparr>)
           \<and> (\<forall>domain c. fmlookup tbl domain = Some (Structured c)
                  \<longrightarrow> fmlookup limits domain = Some c)
           \<and> (\<forall>domain. fmlookup tbl domain = None \<longrightarrow> fmlookup limits domain = None)"
  using assms by (simp add: getLimits_ok limitsOrEmpty_def)

theorem getLimits_migrates_without_write_witness:
  "fmlookup (the (fst (getLimits (scenarioEnv 1000) legacyStore))) ''a.com''
     = Some \<lparr>limit = 600000, period = ''day''\<rparr>
   \<and> snd (getLimits (scenarioEnv 1000) legacyStore) = legacyStore
   \<and> map_of (items legacyStore) ''limits'' = Some (LimitsTab (fmupd ''a.com'' (Bare 600000) fmempty))"
proof -
  have tab: "map_of (items legacyStore) STORAGE_KEYS_LIMITS
               = Some (LimitsTab (fmupd ''a.com'' (Bare 600000) fmempty))"
    by (simp add: legacyStore_def STORAGE_KEYS_LIMITS_def)
  have ok: "\<not> getFails (scenarioEnv 1000)"
    by (simp add: scenarioEnv_simps)
  from getLimits_migrates_without_write [OF ok tab] tab show ?thesis
    by (auto simp: STORAGE_KEYS_LIMITS_def)
qed

subsection \<open>Retention cleanup\<close>

text \<open>
  Claim C9. With a store that answers, \<open>cleanupOldData\<close> keeps the stored cells in their
  order and removes exactly those whose key starts with \<open>daily:\<close> and whose remainder
  parses to a date strictly before the cutoff, the instant 90 days before now. Every other
  key reads as before; the \<open>limits\<close> key in particular.
\<close>

theorem cleanupOldData_removes_exactly_old_daily_keys:
  assumes "\<not> getFails e" and "\<not> setFails e"
  shows "\<exists>st'. cleanupOldData e st = (Resolved, st')
           \<and> items st' = filter (\<lambda>kv. \<not> (startsWith (fst kv) ''daily:''
                  \<and> (\<exists>t. parseDate e (drop 6 (fst kv)) = Some t \<and> t < daysAgo e 90))) (items st)
           \<and> (\<forall>key. map_of (items st') key =
                 (if startsWith key ''daily:''
                     \<and> (\<exists>t. parseDate e (drop 6 key) = Some t \<and> t < daysAgo e 90)
                  then None else map_of (items st) key))
           \<and> map_of (items st') ''limits'' = map_of (items st) ''limits''"
proof -
  let ?old = "\<lambda>key. startsWith key ''daily:''
                  \<and> (\<exists>t. parseDate e (drop 6 key) = Some t \<and> t < daysAgo e 90)"
  let ?rm = "filter (isOldDailyKey e (daysAgo e DATA_RETENTION_DAYS)) (map fst (items st))"
  have old: "isOldDailyKey e (daysAgo e DATA_RETENTION_DAYS) key = ?old key" for key
    by (simp add: isOldDailyKey_iff DATA_RETENTION_DAYS_def)
  have flt: "filter (\<lambda>kv. fst kv \<notin> set ?rm) (items st) = filter (\<lambda>kv. \<not> ?old (fst kv)) (items st)"
    by (rule filter_cong) (auto simp: old)
  show ?thesis
  proof (cases "?rm = []")
    case True
    then have none: "\<forall>kv \<in> set (items st). \<not> ?old (fst kv)"
      by (auto simp: filter_empty_conv old)
    then have same: "filter (\<lambda>kv. \<not> ?old (fst kv)) (items st) = items st"
      by (simp add: filter_id_conv)
    have "cleanupOldData e st = (Resolved, st)"
      using True assms by (simp add: cleanupOldData_def Let_def)
    moreover have "map_of (items st) key = (if ?old key then None else map_of (items st) key)" for key
      using same map_of_filter_fst [of "\<lambda>k. \<not> ?old k" "items st" key] by auto
    ultimately show ?thesis
      using same limits_key_not_daily by auto
  next
    case False
    let ?st' = "st\<lparr>items := filter (\<lambda>kv. \<not> ?old (fst kv)) (items st), writes := Suc (writes st)\<rparr>"
    have "cleanupOldData e st = (Resolved, ?st')"
      using False assms flt by (simp add: cleanupOldData_def Let_def storage_remove_def)
    moreover have "map_of (items ?st') key = (if ?old key then None else map_of (items st) key)" for key
      using map_of_filter_fst [of "\<lambda>k. \<not> ?old k" "items st" key] by auto
    ultimately show ?thesis
      using limits_key_not_daily by auto
  qed
qed

theorem cleanupOldData_removes_exactly_old_daily_keys_witness:
  "map fst (items (snd (cleanupOldData (scenarioEnv 1719750000000) agedStore)))
     = [''limits'', ''daily:2024-06-29'', ''daily:notes'']
   \<and> map fst (items agedStore)
     = [''limits'', ''daily:2024-01-01'', ''daily:2024-06-29'', ''daily:notes'']"
proof -
  have ok: "\<not> getFails (scenarioEnv 1719750000000)" "\<not> setFails (scenarioEnv 1719750000000)"
    by (simp_all add: scenarioEnv_simps)
  from cleanupOldData_removes_exactly_old_daily_keys [OF ok, of agedStore] show ?thesis
    by (auto simp: agedStore_def scenarioEnv_simps scenarioParse_def startsWith_def)
qed


subsection \<open>Status of a domain against its limit\<close>



text \<open>
  Claim C7. A domain whose limit reads back as one minute a day, with 70000 ms in today's
  record, nothing pending for it and no live session on it, has its limit exceeded by
  10000 ms. The domain is a host name (not empty) and the store answers the reads.
\<close>

theorem getDomainStatus_limit_exceeded_by_10000:
  assumes "domain \<noteq> []" and "\<not> getFails e"
    and "fst (getLimits e st) = Some limits"
    and "fmlookup limits domain = Some \<lparr>limit = 60000, period = ''day''\<rparr>"
    and "fmlookup (todayRecord e st) domain = Some 70000"
    and "fmlookup (pendingTime s) domain = None"
    and "\<not> (isTracking s \<and> activeDomain s = Some domain)"
  shows "\<exists>r. getDomainStatus e domain s st = Some (Limited r)
           \<and> hasLimit (Limited r) \<and> limitExceeded r \<and> exceededBy r = 10000
           \<and> periodTime r = 70000 \<and> stLimit r = 60000 \<and> remainingTime r = 0"
proof -
  from assms(2,3) have lim: "getLimits e st = (Some limits, st)"
    by (simp add: getLimits_ok)
  have live: "liveSessionTime e domain s = 0"
    using assms(7) by (auto simp: liveSessionTime_def)
  show ?thesis
    using assms(1,2,4,5,6) lim live
    by (simp add: getDomainStatus_def getDailyData_today getTimeForPeriod_day hasLimit_def
        orZero_simps)
qed

theorem getDomainStatus_limit_exceeded_by_10000_witness:
  "\<exists>r. getDomainStatus (scenarioEnv 1000) ''a.com'' initial_state (limitedStore 70000)
          = Some (Limited r)
        \<and> hasLimit (Limited r) \<and> limitExceeded r \<and> exceededBy r = 10000
        \<and> periodTime r = 70000 \<and> stLimit r = 60000 \<and> remainingTime r = 0"
proof -
  let ?e = "scenarioEnv 1000" and ?st = "limitedStore 70000"
  let ?limits = "fmupd ''a.com'' \<lparr>limit = 60000, period = ''day''\<rparr> fmempty"
  have a: "''a.com'' \<noteq> []" "\<not> getFails ?e"
    by (simp_all add: scenarioEnv_simps)
  have b: "fst (getLimits ?e ?st) = Some ?limits"
    by code_simp
  have c: "fmlookup ?limits ''a.com'' = Some \<lparr>limit = 60000, period = ''day''\<rparr>"
    by simp
  have d: "fmlookup (todayRecord ?e ?st) ''a.com'' = Some 70000"
    by code_simp
  have f: "fmlookup (pendingTime initial_state) ''a.com'' = None"
    "\<not> (isTracking initial_state \<and> activeDomain initial_state = Some ''a.com'')"
    by (simp_all add: initial_state_def)
  from getDomainStatus_limit_exceeded_by_10000 [OF a b c d f] show ?thesis .
qed

subsection \<open>The flush\<close>

lemma addPendingTime_fields:
  "activeTabId (addPendingTime d ms s) = activeTabId s"
  "activeDomain (addPendingTime d ms s) = activeDomain s"
  "sessionStartTime (addPendingTime d ms s) = sessionStartTime s"
  "lastActivityTime (addPendingTime d ms s) = lastActivityTime s"
  "isTracking (addPendingTime d ms s) = isTracking s"
  "lastPersistTime (addPendingTime d ms s) = lastPersistTime s"
  by (simp_all add: addPendingTime_def split: option.splits)

lemma addPendingTime_pending:
  "orZero (fmlookup (pendingTime (addPendingTime (Some x) ms s)) d) =
     orZero (fmlookup (pendingTime s) d) + (if x \<noteq> [] \<and> 0 < ms \<and> d = x then ms else 0)"
  by (simp add: addPendingTime_def orZero_simps)


lemma addPendingTime_nonempty:
  "x \<noteq> [] \<Longrightarrow> 0 < ms \<Longrightarrow> pendingTime (addPendingTime (Some x) ms s) \<noteq> fmempty"
  by (simp add: addPendingTime_def fmap_distinct)

lemma addPendingTime_grows:
  "fmlookup (pendingTime s) d = Some v \<Longrightarrow>
   \<exists>v'. fmlookup (pendingTime (addPendingTime x ms s)) d = Some v' \<and> v \<le> v'"
  by (auto simp: addPendingTime_def orZero_simps split: option.splits)

lemma rollForward_fields:
  "activeTabId (rollForward e s) = activeTabId s"
  "activeDomain (rollForward e s) = activeDomain s"
  "lastActivityTime (rollForward e s) = lastActivityTime s"
  "isTracking (rollForward e s) = isTracking s"
  "lastPersistTime (rollForward e s) = lastPersistTime s"
  by (simp_all add: rollForward_def Let_def addPendingTime_fields)

lemma rollForward_idle:
  "\<not> (isTracking s \<and> truthyNum (sessionStartTime s) \<and> truthyStr (activeDomain s))
   \<Longrightarrow> rollForward e s = s"
  by (auto simp: rollForward_def)

lemma rollForward_tracking:
  assumes "isTracking s" and "sessionStartTime s = Some t0" and "t0 \<noteq> 0"
    and "activeDomain s = Some d" and "d \<noteq> []"
  shows "rollForward e s = (addPendingTime (Some d) (now e - t0) s)\<lparr>sessionStartTime := Some (now e)\<rparr>"
  using assms by (simp add: rollForward_def Let_def truthy_simps orZero_simps addPendingTime_def)

lemma rollForward_start:
  "sessionStartTime (rollForward e s) =
     (if isTracking s \<and> truthyNum (sessionStartTime s) \<and> truthyStr (activeDomain s)
      then Some (now e) else sessionStartTime s)"
  by (simp add: rollForward_def Let_def)

lemma rollForward_grows:
  "fmlookup (pendingTime s) d = Some v \<Longrightarrow>
   \<exists>v'. fmlookup (pendingTime (rollForward e s)) d = Some v' \<and> v \<le> v'"
  using addPendingTime_grows [of s d v]
  by (auto simp: rollForward_def Let_def)

lemma rollForward_same_clock:
  "sessionStartTime s = Some (now e) \<Longrightarrow> rollForward e s = s"
  by (simp add: rollForward_def Let_def orZero_simps)

lemma todayRecord_written:
  "todayRecord e (st\<lparr>items := AList.update (STORAGE_KEYS_DAILY_PREFIX @ getTodayKey e)
                              (DailyRec m) (items st), writes := w\<rparr>) = m"
  by (simp add: todayRecord_def update_conv' recordOrEmpty_def)

lemma flushPending_cases:
  assumes "flushPending e s st = (out, s', st')"
  obtains
    (nothing) "pendingTime s = fmempty" "out = Resolved" "s' = s" "st' = st"
  | (rejected) "pendingTime s \<noteq> fmempty" "getFails e \<or> setFails e"
      "out = Rejected" "s' = s" "st' = st"
  | (written) "pendingTime s \<noteq> fmempty" "\<not> getFails e" "\<not> setFails e"
      "out = Resolved" "s' = s\<lparr>pendingTime := fmempty\<rparr>"
      "st' = st\<lparr>items := AList.update (STORAGE_KEYS_DAILY_PREFIX @ getTodayKey e)
                   (DailyRec (addTimes (todayRecord e st) (pendingTime s))) (items st),
                 writes := Suc (writes st)\<rparr>"
proof (cases "pendingTime s = fmempty")
  case True
  from assms True have a: "out = Resolved" "s' = s" "st' = st"
    by (auto simp: flushPending_def)
  show ?thesis
    by (rule that(1) [OF True a])
next
  case False
  show ?thesis
  proof (cases "getFails e \<or> setFails e")
    case True
    from assms False True have a: "out = Rejected" "s' = s" "st' = st"
      by (auto simp: flushPending_def getDailyData_def saveDailyData_def storage_get_def
          storage_set_def split: option.splits if_splits)
    show ?thesis
      by (rule that(2) [OF False True a])
  next
    case ok: False
    then have g: "\<not> getFails e" and w: "\<not> setFails e"
      by simp_all
    from assms False g w have a: "out = Resolved" "s' = s\<lparr>pendingTime := fmempty\<rparr>"
      "st' = st\<lparr>items := AList.update (STORAGE_KEYS_DAILY_PREFIX @ getTodayKey e)
                   (DailyRec (addTimes (todayRecord e st) (pendingTime s))) (items st),
                 writes := Suc (writes st)\<rparr>"
      by (auto simp: flushPending_def getDailyData_today saveDailyData_def storage_set_def)
    show ?thesis
      by (rule that(3) [OF False g w a])
  qed
qed

lemma flushPending_credited:
  assumes "flushPending e s st = (out, s', st')"
  shows "credited e s' st' d = credited e s st d"
  using assms
  by (cases rule: flushPending_cases)
     (simp_all add: credited_def todayRecord_written addTimes_orZero orZero_simps)

lemma persistPendingTime_credited:
  assumes "persistPendingTime e s st = (out, s', st')"
  shows "credited e s' st' d = credited e (rollForward e s) st d"
  using assms flushPending_credited by (simp add: persistPendingTime_def)

lemma persistPendingTime_ok:
  assumes "persistPendingTime e s st = (out, s', st')" and "storageOk e"
  shows "out = Resolved" and "pendingTime s' = fmempty"
    and "orZero (fmlookup (todayRecord e st') d)
           = orZero (fmlookup (todayRecord e st) d)
             + orZero (fmlookup (pendingTime (rollForward e s)) d)"
proof -
  from assms(1) have fl: "flushPending e (rollForward e s) st = (out, s', st')"
    by (simp add: persistPendingTime_def)
  from fl assms(2) show "out = Resolved" and empty: "pendingTime s' = fmempty"
    by (cases rule: flushPending_cases; simp add: storageOk_def)+
  from persistPendingTime_credited [OF assms(1), of d] empty
  show "orZero (fmlookup (todayRecord e st') d)
           = orZero (fmlookup (todayRecord e st) d)
             + orZero (fmlookup (pendingTime (rollForward e s)) d)"
    by (simp add: credited_def orZero_simps)
qed

lemma persistPendingTime_session:
  assumes "persistPendingTime e s st = (out, s', st')"
  shows "activeTabId s' = activeTabId s" and "activeDomain s' = activeDomain s"
    and "lastActivityTime s' = lastActivityTime s" and "isTracking s' = isTracking s"
    and "lastPersistTime s' = lastPersistTime s"
    and "sessionStartTime s' = sessionStartTime (rollForward e s)"
proof -
  from assms have fl: "flushPending e (rollForward e s) st = (out, s', st')"
    by (simp add: persistPendingTime_def)
  then have "s' = rollForward e s \<or> s' = (rollForward e s)\<lparr>pendingTime := fmempty\<rparr>"
    by (cases rule: flushPending_cases) simp_all
  then show "activeTabId s' = activeTabId s" and "activeDomain s' = activeDomain s"
    and "lastActivityTime s' = lastActivityTime s" and "isTracking s' = isTracking s"
    and "lastPersistTime s' = lastPersistTime s"
    and "sessionStartTime s' = sessionStartTime (rollForward e s)"
    by (auto simp: rollForward_fields)
qed

text \<open>
  Claim C3. The flush and the pending buffer. If the flush resolves, the buffer is empty
  afterwards. If it rejects, a read or a write of the store was rejected, the store is
  untouched and the state is the rolled-forward state: the buffer still holds every amount
  the failed write was carrying, so no entry the call started with has shrunk, and without a
  session in progress the buffer is exactly the buffer the call started with. A rejected
  read or write with something to flush does reject the call. With a store that answers,
  the call resolves and today's durable record has grown, domain by domain, by the
  buffer's amount; so a flush that follows a rejected one delivers the kept amounts.
\<close>

theorem persistPendingTime_buffer_survives_rejection:
  assumes "persistPendingTime e s st = (out, s', st')"
  shows "(out = Resolved \<longrightarrow> pendingTime s' = fmempty)
       \<and> (out = Rejected \<longrightarrow>
            (getFails e \<or> setFails e) \<and> st' = st \<and> s' = rollForward e s
            \<and> pendingTime s' \<noteq> fmempty
            \<and> (\<forall>d v. fmlookup (pendingTime s) d = Some v
                  \<longrightarrow> (\<exists>v'. fmlookup (pendingTime s') d = Some v' \<and> v \<le> v'))
            \<and> (\<not> (isTracking s \<and> truthyNum (sessionStartTime s) \<and> truthyStr (activeDomain s))
                  \<longrightarrow> pendingTime s' = pendingTime s))
       \<and> ((getFails e \<or> setFails e) \<and> pendingTime (rollForward e s) \<noteq> fmempty
            \<longrightarrow> out = Rejected)
       \<and> (storageOk e \<longrightarrow>
            out = Resolved
            \<and> (\<forall>d. orZero (fmlookup (todayRecord e st') d)
                   = orZero (fmlookup (todayRecord e st) d)
                     + orZero (fmlookup (pendingTime (rollForward e s)) d)))"
proof -
  from assms have fl: "flushPending e (rollForward e s) st = (out, s', st')"
    by (simp add: persistPendingTime_def)
  have cred: "credited e s' st' d = credited e (rollForward e s) st d" for d
    using persistPendingTime_credited [OF assms] .
  from fl show ?thesis
  proof (cases rule: flushPending_cases)
    case nothing
    then show ?thesis
      by (simp add: orZero_simps)
  next
    case rejected
    then show ?thesis
      using rollForward_grows [of s _ _ e] rollForward_idle [of s e]
      by (auto simp: storageOk_def)
  next
    case written
    then show ?thesis
      using cred by (simp add: credited_def orZero_simps storageOk_def)
  qed
qed

theorem persistPendingTime_buffer_survives_rejection_witness:
  "persistPendingTime ((scenarioEnv 9000)\<lparr>setFails := True\<rparr>) (trackingState 1000 8000) empty_storage
     = (Rejected, (trackingState 1000 8000)\<lparr>sessionStartTime := Some 9000,
                    pendingTime := fmupd ''a.com'' 8000 fmempty\<rparr>, empty_storage)
   \<and> fmlookup (todayRecord (scenarioEnv 9500)
        (snd (snd (persistPendingTime (scenarioEnv 9500)
           ((trackingState 1000 8000)\<lparr>sessionStartTime := Some 9000,
                    pendingTime := fmupd ''a.com'' 8000 fmempty\<rparr>) empty_storage)))) ''a.com''
     = Some 8500"
proof -
  let ?e = "(scenarioEnv 9000)\<lparr>setFails := True\<rparr>"
  let ?s1 = "(trackingState 1000 8000)\<lparr>sessionStartTime := Some 9000,
                    pendingTime := fmupd ''a.com'' 8000 fmempty\<rparr>"
  have run: "persistPendingTime ?e (trackingState 1000 8000) empty_storage
               = (Rejected, ?s1, empty_storage)"
    by code_simp
  have retry: "fmlookup (todayRecord (scenarioEnv 9500)
        (snd (snd (persistPendingTime (scenarioEnv 9500) ?s1 empty_storage)))) ''a.com'' = Some 8500"
    by code_simp
  from persistPendingTime_buffer_survives_rejection [OF run] run retry show ?thesis
    by simp
qed

text \<open>
  Claim C5, as amended. After a flush that resolved, the buffer is empty. A second flush
  with no activity in between, made while no session is tracking or at a clock reading
  that is not later than the first flush's, resolves without a write: the store it hands
  back is the store it was given, write counter and today's record included, and the
  buffer is still empty. At the same clock reading, or with no session tracking, the state
  is unchanged too.
\<close>

theorem persistPendingTime_second_flush_is_noop:
  assumes "persistPendingTime e s st = (Resolved, s1, st1)"
    and "persistPendingTime e2 s1 st1 = (out2, s2, st2)"
    and "isTracking s \<longrightarrow> now e2 \<le> now e"
  shows "pendingTime s1 = fmempty
       \<and> out2 = Resolved \<and> st2 = st1 \<and> writes st2 = writes st1
       \<and> todayRecord e2 st2 = todayRecord e2 st1
       \<and> pendingTime s2 = fmempty
       \<and> (\<not> isTracking s \<or> now e2 = now e \<longrightarrow> s2 = s1)"
proof -
  let ?guard = "\<lambda>x. isTracking x \<and> truthyNum (sessionStartTime x) \<and> truthyStr (activeDomain x)"
  from assms(1) have fl: "flushPending e (rollForward e s) st = (Resolved, s1, st1)"
    by (simp add: persistPendingTime_def)
  then have s1: "s1 = (rollForward e s)\<lparr>pendingTime := fmempty\<rparr>"
    by (cases rule: flushPending_cases) simp_all
  then have empty: "pendingTime s1 = fmempty"
    by simp
  have start: "sessionStartTime s1 = Some (now e)" if "?guard s1"
  proof (cases "?guard s")
    case True
    then show ?thesis
      by (simp add: s1 rollForward_start)
  next
    case False
    then have "rollForward e s = s"
      by (rule rollForward_idle)
    with False that show ?thesis
      by (simp add: s1)
  qed
  have tracking: "isTracking s1 = isTracking s"
    by (simp add: s1 rollForward_fields)
  have roll2: "pendingTime (rollForward e2 s1) = fmempty"
    and same: "\<not> isTracking s \<or> now e2 = now e \<Longrightarrow> rollForward e2 s1 = s1"
  proof -
    show "pendingTime (rollForward e2 s1) = fmempty"
    proof (cases "?guard s1")
      case True
      with start assms(3) tracking show ?thesis
        by (simp add: rollForward_def Let_def orZero_simps empty)
    next
      case False
      then show ?thesis
        by (simp add: rollForward_idle empty)
    qed
    show "rollForward e2 s1 = s1" if "\<not> isTracking s \<or> now e2 = now e"
    proof (cases "?guard s1")
      case True
      with that tracking start have "sessionStartTime s1 = Some (now e2)"
        by auto
      then show ?thesis
        by (rule rollForward_same_clock)
    next
      case False
      then show ?thesis
        by (rule rollForward_idle)
    qed
  qed
  from assms(2) roll2 have second: "out2 = Resolved" "s2 = rollForward e2 s1" "st2 = st1"
    by (simp_all add: persistPendingTime_def flushPending_def)
  from empty second roll2 same show ?thesis
    by auto
qed

theorem persistPendingTime_second_flush_is_noop_witness:
  "persistPendingTime (scenarioEnv 11000) (trackingState 1000 11000) empty_storage
     = (Resolved, (trackingState 1000 11000)\<lparr>sessionStartTime := Some 11000\<rparr>,
        \<lparr>items = [(''daily:2024-06-30'', DailyRec (fmupd ''a.com'' 10000 fmempty))], writes = 1\<rparr>)
   \<and> persistPendingTime (scenarioEnv 11000) ((trackingState 1000 11000)\<lparr>sessionStartTime := Some 11000\<rparr>)
        \<lparr>items = [(''daily:2024-06-30'', DailyRec (fmupd ''a.com'' 10000 fmempty))], writes = 1\<rparr>
     = (Resolved, (trackingState 1000 11000)\<lparr>sessionStartTime := Some 11000\<rparr>,
        \<lparr>items = [(''daily:2024-06-30'', DailyRec (fmupd ''a.com'' 10000 fmempty))], writes = 1\<rparr>)"
proof -
  let ?s1 = "(trackingState 1000 11000)\<lparr>sessionStartTime := Some 11000\<rparr>"
  let ?st1 = "\<lparr>items = [(''daily:2024-06-30'', DailyRec (fmupd ''a.com'' 10000 fmempty))],
               writes = 1\<rparr>"
  have run: "persistPendingTime (scenarioEnv 11000) (trackingState 1000 11000) empty_storage
               = (Resolved, ?s1, ?st1)"
    by code_simp
  obtain out2 s2 st2 where again: "persistPendingTime (scenarioEnv 11000) ?s1 ?st1 = (out2, s2, st2)"
    by (cases "persistPendingTime (scenarioEnv 11000) ?s1 ?st1")
  have clock: "isTracking (trackingState 1000 11000)
                 \<longrightarrow> now (scenarioEnv 11000) \<le> now (scenarioEnv 11000)"
    by simp
  from persistPendingTime_second_flush_is_noop [OF run again clock] run again show ?thesis
    by simp
qed

text \<open>
  The claim as stated, for any two flushes in a row, fails for a session in progress: the
  first flush at 11000 leaves the session tracking from 11000, and a second flush at
  71000, with no activity in between, rolls it forward, writes to the store a second time
  and raises today's record from 10000 to 70000.
\<close>

theorem persistPendingTime_second_flush_is_noop_counterexample:
  "persistPendingTime (scenarioEnv 11000) (trackingState 1000 11000) empty_storage
     = (Resolved, (trackingState 1000 11000)\<lparr>sessionStartTime := Some 11000\<rparr>,
        \<lparr>items = [(''daily:2024-06-30'', DailyRec (fmupd ''a.com'' 10000 fmempty))], writes = 1\<rparr>)
   \<and> persistPendingTime (scenarioEnv 71000) ((trackingState 1000 11000)\<lparr>sessionStartTime := Some 11000\<rparr>)
        \<lparr>items = [(''daily:2024-06-30'', DailyRec (fmupd ''a.com'' 10000 fmempty))], writes = 1\<rparr>
     = (Resolved, (trackingState 1000 11000)\<lparr>sessionStartTime := Some 71000\<rparr>,
        \<lparr>items = [(''daily:2024-06-30'', DailyRec (fmupd ''a.com'' 70000 fmempty))], writes = 2\<rparr>)"
  by code_simp




subsection \<open>Finalising a session\<close>

lemma credited_pending_cong:
  "pendingTime s1 = pendingTime s2 \<Longrightarrow> credited e s1 st d = credited e s2 st d"
  by (simp add: credited_def)

lemma addPendingTime_credited:
  "credited e (addPendingTime (Some x) ms s) st d =
     credited e s st d + (if x \<noteq> [] \<and> 0 < ms \<and> d = x then ms else 0)"
  by (simp add: credited_def addPendingTime_pending)

lemma rollForward_credited:
  "credited e (rollForward e s) st d =
     credited e s st d
     + (if isTracking s \<and> truthyNum (sessionStartTime s) \<and> activeDomain s = Some d \<and> d \<noteq> []
           \<and> 0 < now e - orZero (sessionStartTime s)
        then now e - orZero (sessionStartTime s) else 0)"
proof (cases "isTracking s \<and> truthyNum (sessionStartTime s) \<and> truthyStr (activeDomain s)")
  case True
  then obtain x where x: "activeDomain s = Some x" "x \<noteq> []"
    by (cases "activeDomain s") (auto simp: truthy_simps)
  with True show ?thesis
    by (auto simp: rollForward_def Let_def credited_def addPendingTime_pending truthy_simps)
next
  case False
  then show ?thesis
    by (auto simp: rollForward_idle truthy_simps)
qed

lemma rollForward_credited_ge: "credited e s st d \<le> credited e (rollForward e s) st d"
  by (simp add: rollForward_credited)

lemma finalizeCurrentSession_cases:
  assumes "finalizeCurrentSession e s st = (out, s', st')"
  obtains
    (skipped) "\<not> (isTracking s \<and> truthyNum (sessionStartTime s) \<and> truthyStr (activeDomain s))"
      "out = Resolved" "s' = s" "st' = st"
  | (nothing) "isTracking s" "truthyNum (sessionStartTime s)" "truthyStr (activeDomain s)"
      "sessionElapsed e s \<le> 0" "out = Resolved" "s' = toIdle s" "st' = st"
  | (rejected) "isTracking s" "truthyNum (sessionStartTime s)" "truthyStr (activeDomain s)"
      "0 < sessionElapsed e s" "out = Rejected"
      "persistPendingTime e (addPendingTime (activeDomain s) (sessionElapsed e s) s) st
         = (Rejected, s', st')"
  | (flushed) s1 where "isTracking s" "truthyNum (sessionStartTime s)" "truthyStr (activeDomain s)"
      "0 < sessionElapsed e s" "out = Resolved"
      "persistPendingTime e (addPendingTime (activeDomain s) (sessionElapsed e s) s) st
         = (Resolved, s1, st')"
      "s' = toIdle s1"
proof (cases "isTracking s \<and> truthyNum (sessionStartTime s) \<and> truthyStr (activeDomain s)")
  case False
  with assms have "out = Resolved" "s' = s" "st' = st"
    by (auto simp: finalizeCurrentSession_def)
  with False show ?thesis
    by (rule that(1))
next
  case guard: True
  show ?thesis
  proof (cases "0 < sessionElapsed e s")
    case False
    with assms guard have "out = Resolved" "s' = toIdle s" "st' = st"
      by (auto simp: finalizeCurrentSession_def Let_def)
    with guard False show ?thesis
      by (intro that(2)) auto
  next
    case True
    obtain o1 s1 st1 where p:
      "persistPendingTime e (addPendingTime (activeDomain s) (sessionElapsed e s) s) st = (o1, s1, st1)"
      by (cases "persistPendingTime e (addPendingTime (activeDomain s) (sessionElapsed e s) s) st")
    show ?thesis
    proof (cases o1)
      case Resolved
      with assms guard True p have "out = Resolved" "s' = toIdle s1" "st' = st1"
        by (auto simp: finalizeCurrentSession_def Let_def)
      with guard True p Resolved show ?thesis
        by (intro that(4) [of s1]) auto
    next
      case Rejected
      with assms guard True p have "out = Rejected" "s' = s1" "st' = st1"
        by (auto simp: finalizeCurrentSession_def Let_def)
      with guard True p Rejected show ?thesis
        by (intro that(3)) auto
    qed
  qed
qed

text \<open>What a finalisation that goes through does to the durable record: the elapsed time
  it computed and, on top of it, the time since the session's start that the flush rolls
  forward, because the session is still marked as tracking when the flush runs.\<close>

lemma finalizeCurrentSession_durable:
  assumes "isTracking s" and "sessionStartTime s = Some t0" and "t0 \<noteq> 0"
    and "activeDomain s = Some d" and "d \<noteq> []" and "0 < sessionElapsed e s"
    and "storageOk e" and "finalizeCurrentSession e s st = (out, s', st')"
  shows "out = Resolved" and "\<not> isTracking s'" and "sessionStartTime s' = None"
    and "lastActivityTime s' = None" and "pendingTime s' = fmempty"
    and "orZero (fmlookup (todayRecord e st') d)
           = orZero (fmlookup (todayRecord e st) d) + orZero (fmlookup (pendingTime s) d)
             + sessionElapsed e s + max 0 (now e - t0)"
proof -
  let ?s0 = "addPendingTime (Some d) (sessionElapsed e s) s"
  obtain o1 s1 st1 where p: "persistPendingTime e ?s0 st = (o1, s1, st1)"
    by (cases "persistPendingTime e ?s0 st")
  have ok: "o1 = Resolved" "pendingTime s1 = fmempty"
    and rec: "orZero (fmlookup (todayRecord e st1) d)
           = orZero (fmlookup (todayRecord e st) d)
             + orZero (fmlookup (pendingTime (rollForward e ?s0)) d)"
    using persistPendingTime_ok [OF p assms(7)] by simp_all
  have fin: "finalizeCurrentSession e s st = (Resolved, toIdle s1, st1)"
    using assms(1-6) p ok(1)
    by (simp add: finalizeCurrentSession_def Let_def truthy_simps)
  have roll: "orZero (fmlookup (pendingTime (rollForward e ?s0)) d)
                = orZero (fmlookup (pendingTime s) d) + sessionElapsed e s + max 0 (now e - t0)"
    using assms(1-6)
    by (simp add: rollForward_tracking [of ?s0 t0 d] addPendingTime_fields addPendingTime_pending)
  from fin assms(8) have res: "out = Resolved" "s' = toIdle s1" "st' = st1"
    by simp_all
  show "out = Resolved" "\<not> isTracking s'" "sessionStartTime s' = None"
    "lastActivityTime s' = None" "pendingTime s' = fmempty"
    using res ok by (simp_all add: toIdle_def)
  show "orZero (fmlookup (todayRecord e st') d)
           = orZero (fmlookup (todayRecord e st) d) + orZero (fmlookup (pendingTime s) d)
             + sessionElapsed e s + max 0 (now e - t0)"
    using res rec roll by simp
qed

text \<open>
  Claim C2 is contradicted by the code. A session on \<open>a.com\<close> that started at 1000 and saw
  its last activity at 5000 is finalised at 6000: the elapsed time is 5000, and the durable
  record of the day receives 10000. After an idle gap (last activity at 6000, finalised at
  30000) the elapsed time is again 5000, and the record receives 34000: the 5000 and the
  29000 from the session's start to now.
\<close>

theorem finalizeCurrentSession_credits_twice:
  "sessionElapsed (scenarioEnv 6000) (trackingState 1000 5000) = 5000
   \<and> finalizeCurrentSession (scenarioEnv 6000) (trackingState 1000 5000) empty_storage
       = (Resolved,
          \<lparr>activeTabId = Some 1, activeDomain = Some ''a.com'', sessionStartTime = None,
           lastActivityTime = None, isTracking = False, pendingTime = fmempty,
           lastPersistTime = Some 1000\<rparr>,
          \<lparr>items = [(''daily:2024-06-30'', DailyRec (fmupd ''a.com'' 10000 fmempty))],
           writes = 1\<rparr>)
   \<and> sessionElapsed (scenarioEnv 30000) (trackingState 1000 6000) = 5000
   \<and> finalizeCurrentSession (scenarioEnv 30000) (trackingState 1000 6000) empty_storage
       = (Resolved,
          \<lparr>activeTabId = Some 1, activeDomain = Some ''a.com'', sessionStartTime = None,
           lastActivityTime = None, isTracking = False, pendingTime = fmempty,
           lastPersistTime = Some 1000\<rparr>,
          \<lparr>items = [(''daily:2024-06-30'', DailyRec (fmupd ''a.com'' 34000 fmempty))],
           writes = 1\<rparr>)"
  by code_simp

theorem finalizeCurrentSession_credits_twice_witness:
  "fmlookup (todayRecord (scenarioEnv 6000)
      (snd (snd (finalizeCurrentSession (scenarioEnv 6000) (trackingState 1000 5000)
         empty_storage)))) ''a.com'' = Some 10000
   \<and> fmlookup (todayRecord (scenarioEnv 30000)
      (snd (snd (finalizeCurrentSession (scenarioEnv 30000) (trackingState 1000 6000)
         empty_storage)))) ''a.com'' = Some 34000"
proof -
  note run = finalizeCurrentSession_credits_twice
  have a: "finalizeCurrentSession (scenarioEnv 6000) (trackingState 1000 5000) empty_storage
       = (Resolved,
          \<lparr>activeTabId = Some 1, activeDomain = Some ''a.com'', sessionStartTime = None,
           lastActivityTime = None, isTracking = False, pendingTime = fmempty,
           lastPersistTime = Some 1000\<rparr>,
          \<lparr>items = [(''daily:2024-06-30'', DailyRec (fmupd ''a.com'' 10000 fmempty))],
           writes = 1\<rparr>)"
    by (rule conjunct1 [OF conjunct2 [OF run]])
  have b: "finalizeCurrentSession (scenarioEnv 30000) (trackingState 1000 6000) empty_storage
       = (Resolved,
          \<lparr>activeTabId = Some 1, activeDomain = Some ''a.com'', sessionStartTime = None,
           lastActivityTime = None, isTracking = False, pendingTime = fmempty,
           lastPersistTime = Some 1000\<rparr>,
          \<lparr>items = [(''daily:2024-06-30'', DailyRec (fmupd ''a.com'' 34000 fmempty))],
           writes = 1\<rparr>)"
    by (rule conjunct2 [OF conjunct2 [OF conjunct2 [OF run]]])
  show ?thesis
    by (simp add: a b todayRecord_def scenarioEnv_simps STORAGE_KEYS_DAILY_PREFIX_def
        recordOrEmpty_def)
qed


subsection \<open>Activity signals\<close>

lemma backgroundPersist_session:
  assumes "backgroundPersist e s st = (s', st')"
  shows "activeTabId s' = activeTabId s" and "activeDomain s' = activeDomain s"
    and "lastActivityTime s' = lastActivityTime s" and "isTracking s' = isTracking s"
proof -
  let ?s0 = "s\<lparr>lastPersistTime := Some (now e)\<rparr>"
  obtain o1 s1 st1 where p: "persistPendingTime e ?s0 st = (o1, s1, st1)"
    by (cases "persistPendingTime e ?s0 st")
  from assms p have "s' = s \<or> s' = s1"
    by (auto simp: backgroundPersist_def split: if_splits)
  then show "activeTabId s' = activeTabId s" and "activeDomain s' = activeDomain s"
    and "lastActivityTime s' = lastActivityTime s" and "isTracking s' = isTracking s"
    using persistPendingTime_session [OF p] by auto
qed

lemma backgroundPersist_at_session_start:
  assumes "backgroundPersist e s st = (s', st')" and "sessionStartTime s = Some (now e)"
  shows "sessionStartTime s' = Some (now e)"
    and "credited e s' st' d = credited e s st d"
    and "pendingTime s = fmempty \<Longrightarrow> pendingTime s' = fmempty \<and> st' = st"
proof -
  let ?s0 = "s\<lparr>lastPersistTime := Some (now e)\<rparr>"
  obtain o1 s1 st1 where p: "persistPendingTime e ?s0 st = (o1, s1, st1)"
    by (cases "persistPendingTime e ?s0 st")
  have same: "rollForward e ?s0 = ?s0"
    using assms(2) by (simp add: rollForward_same_clock)
  from assms(1) p have res: "(s', st') = (s, st) \<or> (s', st') = (s1, st1)"
    by (auto simp: backgroundPersist_def split: if_splits)
  have start1: "sessionStartTime s1 = Some (now e)"
    using persistPendingTime_session(6) [OF p] assms(2) by (simp add: same)
  have cred1: "credited e s1 st1 d = credited e s st d"
    using persistPendingTime_credited [OF p, of d] by (simp add: same credited_def)
  from res start1 assms(2) show "sessionStartTime s' = Some (now e)"
    by auto
  from res cred1 show "credited e s' st' d = credited e s st d"
    by auto
  show "pendingTime s' = fmempty \<and> st' = st" if "pendingTime s = fmempty"
  proof -
    from p that have "s1 = ?s0 \<and> st1 = st"
      by (simp add: persistPendingTime_def same flushPending_def)
    with res that show ?thesis
      by auto
  qed
qed

lemma handleActivityDetected_same_tab:
  assumes "activeTabId s = Some tabId" and "activeDomain s = Some domain"
  shows "handleActivityDetected e tabId domain queried s st =
           (case trackActivity e s st of
              (Rejected, s3, st3) \<Rightarrow> (Rejected, s3, st3)
            | (Resolved, s3, st3) \<Rightarrow>
                (case backgroundPersist e s3 st3 of (s4, st4) \<Rightarrow> (Resolved, s4, st4)))"
  using assms by (simp add: handleActivityDetected_def)

text \<open>The inline inactivity check when it fires (lines 232 to 246) with a store that
  answers.\<close>

lemma trackActivity_after_gap:
  assumes "isTracking s" and "lastActivityTime s = Some l" and "l \<noteq> 0"
    and "now e - l \<ge> INACTIVITY_TIMEOUT_MS" and "storageOk e"
    and "trackActivity e s st = (out, s', st')"
  shows "out = Resolved" and "isTracking s'" and "sessionStartTime s' = Some (now e)"
    and "lastActivityTime s' = Some (now e)" and "activeDomain s' = activeDomain s"
    and "activeTabId s' = activeTabId s"
    and "\<not> (0 < l - orZero (sessionStartTime s) \<and> truthyStr (activeDomain s))
         \<Longrightarrow> pendingTime s' = pendingTime s \<and> st' = st"
    and "0 < l - orZero (sessionStartTime s) \<Longrightarrow> truthyStr (activeDomain s)
         \<Longrightarrow> pendingTime s' = fmempty
             \<and> credited e s' st' d
                 = credited e (rollForward e
                     (addPendingTime (activeDomain s) (l - orZero (sessionStartTime s)) s)) st d"
proof -
  let ?a = "l - orZero (sessionStartTime s)"
  let ?s0 = "addPendingTime (activeDomain s) ?a s"
  obtain o1 s1 st1 where p: "persistPendingTime e ?s0 st = (o1, s1, st1)"
    by (cases "persistPendingTime e ?s0 st")
  have ok: "o1 = Resolved" "pendingTime s1 = fmempty"
    using persistPendingTime_ok [OF p assms(5)] by simp_all
  have s1: "isTracking s1" "activeDomain s1 = activeDomain s" "activeTabId s1 = activeTabId s"
    using persistPendingTime_session [OF p] assms(1) by (simp_all add: addPendingTime_fields)
  show "out = Resolved" and "isTracking s'" and "sessionStartTime s' = Some (now e)"
    and "lastActivityTime s' = Some (now e)" and "activeDomain s' = activeDomain s"
    and "activeTabId s' = activeTabId s"
    using assms p ok s1
    by (auto simp: trackActivity_def Let_def truthy_simps orZero_simps split: if_splits)
  show "pendingTime s' = pendingTime s \<and> st' = st"
    if "\<not> (0 < ?a \<and> truthyStr (activeDomain s))"
    using assms that
    by (auto simp: trackActivity_def Let_def truthy_simps orZero_simps split: if_splits)
  show "pendingTime s' = fmempty \<and> credited e s' st' d = credited e (rollForward e ?s0) st d"
    if "0 < ?a" and "truthyStr (activeDomain s)"
  proof -
    from assms that p ok s1
    have "s' = s1\<lparr>sessionStartTime := Some (now e), lastActivityTime := Some (now e)\<rparr>" "st' = st1"
      by (auto simp: trackActivity_def Let_def truthy_simps orZero_simps split: if_splits)
    with ok persistPendingTime_credited [OF p, of d] show ?thesis
      by (simp add: credited_def)
  qed
qed

text \<open>What the handler does when the inline check fires, for a signal from the tracked tab
  and domain with a store that answers: the session restarts at the current time; an
  interrupted session with nothing to credit changes no credited time; one with activity to
  credit is flushed, and the domain receives that activity time and, on top of it, the
  whole time from the session's start to now, idle gap included, because the flush rolls
  the still-tracking session forward.\<close>

lemma handleActivityDetected_after_gap:
  assumes "activeTabId s = Some tabId" and "activeDomain s = Some domain"
    and "isTracking s" and "lastActivityTime s = Some l" and "l \<noteq> 0"
    and "now e - l \<ge> 15000" and "storageOk e"
    and "handleActivityDetected e tabId domain queried s st = (out, s', st')"
  shows "out = Resolved \<and> isTracking s'
       \<and> sessionStartTime s' = Some (now e) \<and> lastActivityTime s' = Some (now e)
       \<and> activeDomain s' = Some domain \<and> activeTabId s' = Some tabId
       \<and> (l - orZero (sessionStartTime s) \<le> 0
            \<longrightarrow> (\<forall>d. credited e s' st' d = credited e s st d))
       \<and> (0 < l - orZero (sessionStartTime s) \<and> domain \<noteq> [] \<and> truthyNum (sessionStartTime s)
            \<longrightarrow> pendingTime s' = fmempty
                \<and> credited e s' st' domain
                    = credited e s st domain + (l - orZero (sessionStartTime s))
                      + (now e - orZero (sessionStartTime s)))"
proof -
  let ?a = "l - orZero (sessionStartTime s)"
  obtain o3 s3 st3 where t: "trackActivity e s st = (o3, s3, st3)"
    by (cases "trackActivity e s st")
  have gap: "now e - l \<ge> INACTIVITY_TIMEOUT_MS"
    using assms(6) by (simp add: INACTIVITY_TIMEOUT_MS_def)
  note tr = trackActivity_after_gap [OF assms(3,4,5) gap assms(7) t]
  obtain s4 st4 where b: "backgroundPersist e s3 st3 = (s4, st4)"
    by (cases "backgroundPersist e s3 st3")
  from assms(8) t b tr(1) have res: "out = Resolved" "s' = s4" "st' = st4"
    by (simp_all add: handleActivityDetected_same_tab [OF assms(1,2)])
  note bg = backgroundPersist_session [OF b] backgroundPersist_at_session_start [OF b tr(3)]
  have session: "isTracking s'" "sessionStartTime s' = Some (now e)"
    "lastActivityTime s' = Some (now e)" "activeDomain s' = Some domain"
    "activeTabId s' = Some tabId"
    using res bg tr assms(1,2) by simp_all
  have none: "credited e s' st' d = credited e s st d" if "?a \<le> 0" for d
  proof -
    from that have "pendingTime s3 = pendingTime s \<and> st3 = st"
      by (intro tr(7)) simp
    then show ?thesis
      using bg(6) [of d] res by (simp add: credited_def)
  qed
  have some: "pendingTime s' = fmempty
      \<and> credited e s' st' domain
          = credited e s st domain + ?a + (now e - orZero (sessionStartTime s))"
    if "0 < ?a" and "domain \<noteq> []" and "truthyNum (sessionStartTime s)"
  proof -
    from that assms(2) have str: "truthyStr (activeDomain s)"
      by (simp add: truthy_simps)
    let ?s0 = "addPendingTime (activeDomain s) ?a s"
    from tr(8) [OF that(1) str, of domain]
    have e3: "pendingTime s3 = fmempty"
      and c3: "credited e s3 st3 domain = credited e (rollForward e ?s0) st domain"
      by simp_all
    have c0: "credited e ?s0 st domain = credited e s st domain + ?a"
      using that assms(2) by (simp add: addPendingTime_credited)
    have "0 < now e - orZero (sessionStartTime s)"
      using that(1) assms(6) by simp
    then have "credited e (rollForward e ?s0) st domain
                 = credited e ?s0 st domain + (now e - orZero (sessionStartTime s))"
      using that assms(2,3)
      by (simp add: rollForward_credited addPendingTime_fields)
    with c0 c3 bg(6) [of domain] have "credited e s4 st4 domain
        = credited e s st domain + ?a + (now e - orZero (sessionStartTime s))"
      by simp
    moreover have "pendingTime s4 = fmempty"
      using bg(7) [OF e3] by simp
    ultimately show ?thesis
      using res by simp
  qed
  from res(1) session none some show ?thesis
    by simp
qed

text \<open>
  Claim C1 is contradicted by the code. A session on \<open>a.com\<close> that started at 1000 and saw
  its last activity at 5000 receives the next activity signal at 25000, a gap of 20000 ms.
  The interrupted session has 4000 ms of activity to credit; the durable record of the
  day receives 28000: the 4000 and the 24000 from the session's start to now. The new
  session does start at 25000.
\<close>

theorem handleActivityDetected_gap_credits_idle_time:
  "handleActivityDetected (scenarioEnv 25000) 1 ''a.com'' (ActiveTab 1)
     (trackingState 1000 5000) empty_storage
   = (Resolved,
      \<lparr>activeTabId = Some 1, activeDomain = Some ''a.com'', sessionStartTime = Some 25000,
       lastActivityTime = Some 25000, isTracking = True, pendingTime = fmempty,
       lastPersistTime = Some 1000\<rparr>,
      \<lparr>items = [(''daily:2024-06-30'', DailyRec (fmupd ''a.com'' 28000 fmempty))],
       writes = 1\<rparr>)"
  by code_simp

theorem handleActivityDetected_gap_credits_idle_time_witness:
  "fmlookup (todayRecord (scenarioEnv 25000)
      (snd (snd (handleActivityDetected (scenarioEnv 25000) 1 ''a.com'' (ActiveTab 1)
         (trackingState 1000 5000) empty_storage)))) ''a.com'' = Some 28000
   \<and> sessionStartTime (fst (snd (handleActivityDetected (scenarioEnv 25000) 1 ''a.com''
         (ActiveTab 1) (trackingState 1000 5000) empty_storage))) = Some 25000"
  by (simp add: handleActivityDetected_gap_credits_idle_time todayRecord_def scenarioEnv_simps
      STORAGE_KEYS_DAILY_PREFIX_def recordOrEmpty_def)


subsection \<open>Invariants of the session state\<close>

lemma pendingPositive_addPendingTime:
  "pendingPositive s \<Longrightarrow> pendingPositive (addPendingTime d ms s)"
proof (cases d)
  case None
  then show "pendingPositive s \<Longrightarrow> ?thesis"
    by (simp add: addPendingTime_def)
next
  case (Some x)
  assume pos: "pendingPositive s"
  then have "0 \<le> orZero (fmlookup (pendingTime s) x)"
    by (cases "fmlookup (pendingTime s) x")
       (auto simp: pendingPositive_def fmpred_iff orZero_simps dest: less_imp_le)
  with pos Some show ?thesis
    by (auto simp: addPendingTime_def pendingPositive_def intro!: fmpred_upd)
qed

lemma pendingPositive_update:
  "pendingTime s' = pendingTime s \<Longrightarrow> pendingPositive s \<Longrightarrow> pendingPositive s'"
  by (simp add: pendingPositive_def)

lemma pendingPositive_empty: "pendingTime s = fmempty \<Longrightarrow> pendingPositive s"
  by (simp add: pendingPositive_def)

lemma pendingPositive_rollForward: "pendingPositive s \<Longrightarrow> pendingPositive (rollForward e s)"
  by (auto simp: rollForward_def Let_def pendingPositive_addPendingTime
      intro: pendingPositive_update [of _ "addPendingTime (activeDomain s) _ s"]
             pendingPositive_update [of _ s])

lemma pendingPositive_persistPendingTime:
  assumes "pendingPositive s" and "persistPendingTime e s st = (out, s', st')"
  shows "pendingPositive s'"
proof -
  from assms(2) have "flushPending e (rollForward e s) st = (out, s', st')"
    by (simp add: persistPendingTime_def)
  then show ?thesis
    using pendingPositive_rollForward [OF assms(1), of e]
    by (cases rule: flushPending_cases) (simp_all add: pendingPositive_empty)
qed

lemma pendingPositive_toIdle: "pendingPositive s \<Longrightarrow> pendingPositive (toIdle s)"
  by (simp add: pendingPositive_def toIdle_def)

lemma pendingPositive_checkInactivityTimeout:
  "pendingPositive s \<Longrightarrow> pendingPositive (checkInactivityTimeout e s)"
  using pendingPositive_addPendingTime [of s "activeDomain s"]
  by (auto simp: checkInactivityTimeout_def Let_def pendingPositive_def)

lemma pendingPositive_finalizeCurrentSession:
  assumes "pendingPositive s" and "finalizeCurrentSession e s st = (out, s', st')"
  shows "pendingPositive s'"
  using assms(2)
proof (cases rule: finalizeCurrentSession_cases)
  case skipped
  with assms(1) show ?thesis by simp
next
  case nothing
  with assms(1) show ?thesis by (simp add: pendingPositive_toIdle)
next
  case rejected
  from pendingPositive_persistPendingTime [OF pendingPositive_addPendingTime [OF assms(1)] rejected(6)]
  show ?thesis .
next
  case (flushed s1)
  from pendingPositive_persistPendingTime [OF pendingPositive_addPendingTime [OF assms(1)] flushed(6)]
  show ?thesis
    using flushed(7) by (simp add: pendingPositive_toIdle)
qed

lemma pendingPositive_handleTabChange:
  assumes "pendingPositive s" and "handleTabChange e tabId looked s st = (out, s', st')"
  shows "pendingPositive s'"
proof -
  obtain o1 s1 st1 where f: "finalizeCurrentSession e s st = (o1, s1, st1)"
    by (cases "finalizeCurrentSession e s st")
  have p1: "pendingPositive s1"
    using pendingPositive_finalizeCurrentSession [OF assms(1) f] .
  from assms(2) f have "pendingTime s' = pendingTime s1"
    by (cases o1; cases looked) (auto simp: handleTabChange_def split: if_splits)
  with p1 show ?thesis
    by (rule pendingPositive_update [rotated])
qed

lemma pendingPositive_trackActivity:
  assumes "pendingPositive s" and "trackActivity e s st = (out, s', st')"
  shows "pendingPositive s'"
proof -
  let ?s0 = "addPendingTime (activeDomain s)
               (orZero (lastActivityTime s) - orZero (sessionStartTime s)) s"
  obtain o1 s1 st1 where p: "persistPendingTime e ?s0 st = (o1, s1, st1)"
    by (cases "persistPendingTime e ?s0 st")
  have p1: "pendingPositive s1"
    using pendingPositive_persistPendingTime [OF pendingPositive_addPendingTime [OF assms(1)] p] .
  from assms(2) p have "pendingTime s' = pendingTime s \<or> pendingTime s' = pendingTime s1"
    by (cases o1) (auto simp: trackActivity_def Let_def split: if_splits)
  with p1 assms(1) show ?thesis
    by (auto simp: pendingPositive_def)
qed

lemma pendingPositive_backgroundPersist:
  assumes "pendingPositive s" and "backgroundPersist e s st = (s', st')"
  shows "pendingPositive s'"
proof -
  let ?s0 = "s\<lparr>lastPersistTime := Some (now e)\<rparr>"
  obtain o1 s1 st1 where p: "persistPendingTime e ?s0 st = (o1, s1, st1)"
    by (cases "persistPendingTime e ?s0 st")
  have "pendingPositive ?s0"
    using assms(1) by (simp add: pendingPositive_def)
  then have p1: "pendingPositive s1"
    using p by (rule pendingPositive_persistPendingTime)
  from assms(2) p have "s' = s \<or> s' = s1"
    by (auto simp: backgroundPersist_def split: if_splits)
  with p1 assms(1) show ?thesis
    by auto
qed

text \<open>The shape of an activity signal's handling: ignored, or a prefix (the tab check and
  the switch of domain) that ends in a state \<open>x\<close> whose domain is the signal's, followed
  by the tracking step and the background flush.\<close>

lemma handleActivityDetected_cases:
  assumes "handleActivityDetected e tabId domain queried s st = (out, s', st')"
  obtains
    (ignored) "out = Resolved" "s' = s" "st' = st"
  | (switchRejected) s1 where "pendingTime s1 = pendingTime s" "isTracking s1 = isTracking s"
      "sessionStartTime s1 = sessionStartTime s"
      "activeDomain s1 = activeDomain s \<or> activeDomain s1 = Some domain"
      "finalizeCurrentSession e s1 st = (Rejected, s', st')" "out = Rejected"
  | (trackRejected) x stx where "activeDomain x = Some domain"
      "trackActivity e x stx = (Rejected, s', st')" "out = Rejected"
      "x = s \<or> x = s\<lparr>activeTabId := Some tabId, activeDomain := Some domain\<rparr>
        \<or> (\<exists>s1 s2. pendingTime s1 = pendingTime s \<and> isTracking s1 = isTracking s
              \<and> sessionStartTime s1 = sessionStartTime s
              \<and> (activeDomain s1 = activeDomain s \<or> activeDomain s1 = Some domain)
              \<and> finalizeCurrentSession e s1 st = (Resolved, s2, stx)
              \<and> x = s2\<lparr>activeDomain := Some domain, isTracking := False\<rparr>)"
  | (tracked) x stx s3 st3 where "activeDomain x = Some domain"
      "trackActivity e x stx = (Resolved, s3, st3)" "backgroundPersist e s3 st3 = (s', st')"
      "out = Resolved"
      "x = s \<or> x = s\<lparr>activeTabId := Some tabId, activeDomain := Some domain\<rparr>
        \<or> (\<exists>s1 s2. pendingTime s1 = pendingTime s \<and> isTracking s1 = isTracking s
              \<and> sessionStartTime s1 = sessionStartTime s
              \<and> (activeDomain s1 = activeDomain s \<or> activeDomain s1 = Some domain)
              \<and> finalizeCurrentSession e s1 st = (Resolved, s2, stx)
              \<and> x = s2\<lparr>activeDomain := Some domain, isTracking := False\<rparr>)"
proof -
  let ?checked = "if activeTabId s = None \<or> activeTabId s \<noteq> Some tabId then
           (case queried of
              ActiveTab i \<Rightarrow>
                if i = tabId
                then Some (s\<lparr>activeTabId := Some tabId, activeDomain := Some domain\<rparr>)
                else None
            | _ \<Rightarrow> None)
         else Some s"
  show ?thesis
  proof (cases ?checked)
    case None
    with assms have "out = Resolved" "s' = s" "st' = st"
      by (simp_all add: handleActivityDetected_def)
    then show ?thesis
      by (rule that(1))
  next
    case (Some s1)
    then have s1: "s1 = s \<or> s1 = s\<lparr>activeTabId := Some tabId, activeDomain := Some domain\<rparr>"
      by (auto split: if_splits tab_query.splits)
    then have s1f: "pendingTime s1 = pendingTime s" "isTracking s1 = isTracking s"
      "sessionStartTime s1 = sessionStartTime s"
      "activeDomain s1 = activeDomain s \<or> activeDomain s1 = Some domain"
      by auto
    obtain o2 s2 st2 where f: "finalizeCurrentSession e s1 st = (o2, s2, st2)"
      by (cases "finalizeCurrentSession e s1 st")
    let ?x = "if Some domain \<noteq> activeDomain s1
              then s2\<lparr>activeDomain := Some domain, isTracking := False\<rparr> else s1"
    let ?stx = "if Some domain \<noteq> activeDomain s1 then st2 else st"
    obtain o3 s3 st3 where t: "trackActivity e ?x ?stx = (o3, s3, st3)"
      by (cases "trackActivity e ?x ?stx")
    obtain s4 st4 where b: "backgroundPersist e s3 st3 = (s4, st4)"
      by (cases "backgroundPersist e s3 st3")
    have xdom: "activeDomain ?x = Some domain"
      by auto
    show ?thesis
    proof (cases "Some domain \<noteq> activeDomain s1 \<and> o2 = Rejected")
      case True
      with assms Some f have "out = Rejected" "s' = s2" "st' = st2"
        by (simp_all add: handleActivityDetected_def)
      with True f s1f show ?thesis
        by (intro that(2) [of s1]) auto
    next
      case False
      then have o2: "Some domain \<noteq> activeDomain s1 \<Longrightarrow> o2 = Resolved"
        by (cases o2) auto
      have shape: "?x = s \<or> ?x = s\<lparr>activeTabId := Some tabId, activeDomain := Some domain\<rparr>
        \<or> (\<exists>s1 s2. pendingTime s1 = pendingTime s \<and> isTracking s1 = isTracking s
              \<and> sessionStartTime s1 = sessionStartTime s
              \<and> (activeDomain s1 = activeDomain s \<or> activeDomain s1 = Some domain)
              \<and> finalizeCurrentSession e s1 st = (Resolved, s2, ?stx)
              \<and> ?x = s2\<lparr>activeDomain := Some domain, isTracking := False\<rparr>)"
      proof (cases "Some domain \<noteq> activeDomain s1")
        case True
        with o2 f s1f show ?thesis
          by (intro disjI2 exI [of _ s1] exI [of _ s2]) simp
      next
        case False
        with s1 show ?thesis
          by auto
      qed
      show ?thesis
      proof (cases o3)
        case Rejected
        with assms Some f t o2 have "out = Rejected" "s' = s3" "st' = st3"
          by (auto simp: handleActivityDetected_def split: if_splits)
        with t Rejected show ?thesis
          using xdom shape by (intro that(3) [of ?x ?stx]) simp_all
      next
        case Resolved
        with assms Some f t b o2 have "out = Resolved" "s' = s4" "st' = st4"
          by (auto simp: handleActivityDetected_def split: if_splits)
        with t b Resolved show ?thesis
          using xdom shape by (intro that(4) [of ?x ?stx s3 st3]) simp_all
      qed
    qed
  qed
qed


lemma pendingPositive_handleActivityDetected:
  assumes "pendingPositive s"
    and "handleActivityDetected e tabId domain queried s st = (out, s', st')"
  shows "pendingPositive s'"
proof -
  have entry: "pendingPositive x"
    if "x = s \<or> x = s\<lparr>activeTabId := Some tabId, activeDomain := Some domain\<rparr>
        \<or> (\<exists>s1 s2. pendingTime s1 = pendingTime s \<and> isTracking s1 = isTracking s
              \<and> sessionStartTime s1 = sessionStartTime s
              \<and> (activeDomain s1 = activeDomain s \<or> activeDomain s1 = Some domain)
              \<and> finalizeCurrentSession e s1 st = (Resolved, s2, stx)
              \<and> x = s2\<lparr>activeDomain := Some domain, isTracking := False\<rparr>)" for x stx
  proof -
    from that consider "pendingTime x = pendingTime s"
      | s1 s2 where "pendingTime s1 = pendingTime s"
          "finalizeCurrentSession e s1 st = (Resolved, s2, stx)"
          "pendingTime x = pendingTime s2"
      by auto
    then show ?thesis
    proof cases
      case 1
      with assms(1) show ?thesis
        by (simp add: pendingPositive_def)
    next
      case (2 s1 s2)
      from 2(1) assms(1) have "pendingPositive s1"
        by (simp add: pendingPositive_def)
      then have "pendingPositive s2"
        using 2(2) by (rule pendingPositive_finalizeCurrentSession)
      with 2(3) show ?thesis
        by (simp add: pendingPositive_def)
    qed
  qed
  from assms(2) show ?thesis
  proof (cases rule: handleActivityDetected_cases)
    case ignored
    with assms(1) show ?thesis by simp
  next
    case (switchRejected s1)
    then have "pendingPositive s1"
      using assms(1) by (simp add: pendingPositive_def)
    then show ?thesis
      using switchRejected(5) by (rule pendingPositive_finalizeCurrentSession)
  next
    case (trackRejected x stx)
    from entry [OF trackRejected(4)] trackRejected(2) show ?thesis
      by (rule pendingPositive_trackActivity)
  next
    case (tracked x stx s3 st3)
    from entry [OF tracked(5)] tracked(2) have "pendingPositive s3"
      by (rule pendingPositive_trackActivity)
    then show ?thesis
      using tracked(3) by (rule pendingPositive_backgroundPersist)
  qed
qed

text \<open>A tracking session keeps a start time and a domain that pass the guards, as long as
  the clock never reads 0 and activity signals carry a domain.\<close>

lemma trackingSet_idle: "\<not> isTracking s \<Longrightarrow> trackingSet s"
  by (simp add: trackingSet_def)

lemma trackingSet_addPendingTime: "trackingSet s \<Longrightarrow> trackingSet (addPendingTime d ms s)"
  by (simp add: trackingSet_def addPendingTime_fields)

lemma trackingSet_rollForward:
  "now e \<noteq> 0 \<Longrightarrow> trackingSet s \<Longrightarrow> trackingSet (rollForward e s)"
  by (auto simp: trackingSet_def rollForward_fields rollForward_start truthy_simps)

lemma trackingSet_persistPendingTime:
  assumes "now e \<noteq> 0" and "trackingSet s" and "persistPendingTime e s st = (out, s', st')"
  shows "trackingSet s'"
  using trackingSet_rollForward [OF assms(1,2)] persistPendingTime_session [OF assms(3)]
  by (simp add: trackingSet_def rollForward_fields)

lemma trackingSet_checkInactivityTimeout:
  "trackingSet s \<Longrightarrow> trackingSet (checkInactivityTimeout e s)"
  by (auto simp: checkInactivityTimeout_def Let_def trackingSet_def addPendingTime_fields)

lemma trackingSet_finalizeCurrentSession:
  assumes "now e \<noteq> 0" and "trackingSet s" and "finalizeCurrentSession e s st = (out, s', st')"
  shows "trackingSet s'" and "out = Resolved \<Longrightarrow> \<not> isTracking s'"
proof -
  from assms(3) have "trackingSet s' \<and> (out = Resolved \<longrightarrow> \<not> isTracking s')"
  proof (cases rule: finalizeCurrentSession_cases)
    case skipped
    with assms(2) show ?thesis
      by (auto simp: trackingSet_def)
  next
    case nothing
    then show ?thesis
      by (simp add: trackingSet_def toIdle_def)
  next
    case rejected
    from trackingSet_persistPendingTime [OF assms(1) trackingSet_addPendingTime [OF assms(2)] rejected(6)]
    show ?thesis
      using rejected(5) by simp
  next
    case (flushed s1)
    then show ?thesis
      by (simp add: trackingSet_def toIdle_def)
  qed
  then show "trackingSet s'" and "out = Resolved \<Longrightarrow> \<not> isTracking s'"
    by simp_all
qed

lemma trackingSet_handleTabChange:
  assumes "now e \<noteq> 0" and "trackingSet s"
    and "handleTabChange e tabId looked s st = (out, s', st')"
  shows "trackingSet s'"
proof -
  obtain o1 s1 st1 where f: "finalizeCurrentSession e s st = (o1, s1, st1)"
    by (cases "finalizeCurrentSession e s st")
  note fin = trackingSet_finalizeCurrentSession [OF assms(1,2) f]
  show ?thesis
  proof (cases o1)
    case Rejected
    with assms(3) f fin(1) show ?thesis
      by (simp add: handleTabChange_def)
  next
    case Resolved
    with fin(2) have idle: "\<not> isTracking s1"
      by simp
    from assms(3) f Resolved have "isTracking s' = isTracking s1 \<or> \<not> isTracking s'"
      by (cases looked) (auto simp: handleTabChange_def split: if_splits)
    with idle show ?thesis
      by (auto simp: trackingSet_def)
  qed
qed

lemma trackingSet_trackActivity:
  assumes "now e \<noteq> 0" and "trackingSet s" and "truthyStr (activeDomain s)"
    and "trackActivity e s st = (out, s', st')"
  shows "trackingSet s'"
proof -
  let ?s0 = "addPendingTime (activeDomain s)
               (orZero (lastActivityTime s) - orZero (sessionStartTime s)) s"
  obtain o1 s1 st1 where p: "persistPendingTime e ?s0 st = (o1, s1, st1)"
    by (cases "persistPendingTime e ?s0 st")
  have t1: "trackingSet s1"
    using trackingSet_persistPendingTime [OF assms(1) trackingSet_addPendingTime [OF assms(2)] p] .
  have d1: "activeDomain s1 = activeDomain s" "isTracking s1 = isTracking s"
    using persistPendingTime_session [OF p] by (simp_all add: addPendingTime_fields)
  from assms p t1 d1 show ?thesis
    by (cases o1)
       (auto simp: trackActivity_def Let_def trackingSet_def truthy_simps split: if_splits)
qed

lemma trackingSet_backgroundPersist:
  assumes "now e \<noteq> 0" and "trackingSet s" and "backgroundPersist e s st = (s', st')"
  shows "trackingSet s'"
proof -
  let ?s0 = "s\<lparr>lastPersistTime := Some (now e)\<rparr>"
  obtain o1 s1 st1 where p: "persistPendingTime e ?s0 st = (o1, s1, st1)"
    by (cases "persistPendingTime e ?s0 st")
  have "trackingSet ?s0"
    using assms(2) by (simp add: trackingSet_def)
  with assms(1) have t1: "trackingSet s1"
    using p by (rule trackingSet_persistPendingTime)
  from assms(3) p have "s' = s \<or> s' = s1"
    by (auto simp: backgroundPersist_def split: if_splits)
  with t1 assms(2) show ?thesis
    by auto
qed

lemma trackingSet_handleActivityDetected:
  assumes "now e \<noteq> 0" and "domain \<noteq> []" and "trackingSet s"
    and "handleActivityDetected e tabId domain queried s st = (out, s', st')"
  shows "trackingSet s'"
proof -
  have entry: "trackingSet x"
    if "x = s \<or> x = s\<lparr>activeTabId := Some tabId, activeDomain := Some domain\<rparr>
        \<or> (\<exists>s1 s2. pendingTime s1 = pendingTime s \<and> isTracking s1 = isTracking s
              \<and> sessionStartTime s1 = sessionStartTime s
              \<and> (activeDomain s1 = activeDomain s \<or> activeDomain s1 = Some domain)
              \<and> finalizeCurrentSession e s1 st = (Resolved, s2, stx)
              \<and> x = s2\<lparr>activeDomain := Some domain, isTracking := False\<rparr>)" for x stx
    using that assms(2,3) by (auto simp: trackingSet_def truthy_simps)
  from assms(4) show ?thesis
  proof (cases rule: handleActivityDetected_cases)
    case ignored
    with assms(3) show ?thesis by simp
  next
    case (switchRejected s1)
    then have "trackingSet s1"
      using assms(2,3) by (auto simp: trackingSet_def truthy_simps)
    with assms(1) show ?thesis
      using switchRejected(5) by (rule trackingSet_finalizeCurrentSession(1))
  next
    case (trackRejected x stx)
    have "truthyStr (activeDomain x)"
      using trackRejected(1) assms(2) by (simp add: truthy_simps)
    with assms(1) entry [OF trackRejected(4)] show ?thesis
      using trackRejected(2) by (rule trackingSet_trackActivity)
  next
    case (tracked x stx s3 st3)
    have "truthyStr (activeDomain x)"
      using tracked(1) assms(2) by (simp add: truthy_simps)
    with assms(1) entry [OF tracked(5)] have "trackingSet s3"
      using tracked(2) by (rule trackingSet_trackActivity)
    with assms(1) show ?thesis
      using tracked(3) by (rule trackingSet_backgroundPersist)
  qed
qed

lemma reachableWith_pendingPositive:
  "reachableWith okEnv okDomain s st \<Longrightarrow> pendingPositive s"
proof (induction rule: reachableWith.induct)
  case (atStart st)
  show ?case
    by (simp add: pendingPositive_def initial_state_def)
next
  case (storeChanged s st st')
  from storeChanged.IH show ?case .
next
  case (tabChange s st e tabId looked out s' st')
  from tabChange.IH tabChange.hyps(3) show ?case
    by (rule pendingPositive_handleTabChange)
next
  case (activity s st e domain tabId queried out s' st')
  from activity.IH activity.hyps(4) show ?case
    by (rule pendingPositive_handleActivityDetected)
next
  case (sweep s st e)
  then show ?case
    by (simp add: pendingPositive_checkInactivityTimeout)
next
  case (finalize s st e out s' st')
  from finalize.IH finalize.hyps(3) show ?case
    by (rule pendingPositive_finalizeCurrentSession)
next
  case (flush s st e out s' st')
  from flush.IH flush.hyps(3) show ?case
    by (rule pendingPositive_persistPendingTime)
qed

lemma reachableWith_trackingSet:
  "reachableWith realClock sentDomain s st \<Longrightarrow> trackingSet s"
proof (induction rule: reachableWith.induct)
  case (atStart st)
  show ?case
    by (simp add: trackingSet_def initial_state_def)
next
  case (storeChanged s st st')
  from storeChanged.IH show ?case .
next
  case (tabChange s st e tabId looked out s' st')
  then show ?case
    using trackingSet_handleTabChange [of e s tabId looked st out s' st']
    by (simp add: realClock_def)
next
  case (activity s st e domain tabId queried out s' st')
  then show ?case
    using trackingSet_handleActivityDetected [of e domain s tabId queried st out s' st']
    by (simp add: realClock_def sentDomain_def)
next
  case (sweep s st e)
  then show ?case
    by (simp add: trackingSet_checkInactivityTimeout)
next
  case (finalize s st e out s' st')
  then show ?case
    using trackingSet_finalizeCurrentSession(1) [of e s st out s' st']
    by (simp add: realClock_def)
next
  case (flush s st e out s' st')
  then show ?case
    using trackingSet_persistPendingTime [of e s st out s' st']
    by (simp add: realClock_def)
qed

text \<open>
  What the embedding gives for the invariant of claim C6: in every state the handlers
  reach on a clock that reads a positive time and on activity signals whose domain is a
  host name other than the names every object inherits, a tracking session has a non-null
  start time and a non-null domain, and every pending amount is positive. For a host
  named \<open>constructor\<close> the code leaves the embedding (see \<open>addPendingTime\<close>): there the
  pending value is a string.
\<close>

lemma reachableWith_session_invariant:
  assumes "reachableWith realClock sentDomain s st"
  shows "isTracking s \<longrightarrow> sessionStartTime s \<noteq> None \<and> activeDomain s \<noteq> None"
    and "\<forall>domain v. fmlookup (pendingTime s) domain = Some v \<longrightarrow> 0 < v"
proof -
  show "isTracking s \<longrightarrow> sessionStartTime s \<noteq> None \<and> activeDomain s \<noteq> None"
    using reachableWith_trackingSet [OF assms]
    by (cases "sessionStartTime s"; cases "activeDomain s")
       (auto simp: trackingSet_def truthy_simps)
  show "\<forall>domain v. fmlookup (pendingTime s) domain = Some v \<longrightarrow> 0 < v"
    using reachableWith_pendingPositive [OF assms]
    by (auto simp: pendingPositive_def fmpred_iff)
qed

subsection \<open>The flush rolls a session in progress forward\<close>






end
